theory Spec2Isabelle
  imports Complex_Main "HOL-Library.Multiset"
begin

section \<open>Sprint planner: data model\<close>

text \<open>
  The planner (src/src/App.tsx) keeps one document: a sprint schedule, a velocity and seven
  ordered groups of items. A JavaScript \<open>number\<close> is modelled by an exact rational: the
  rounding of IEEE doubles, \<open>NaN\<close> and the infinities are outside the model. A JavaScript
  string is a \<open>string\<close> (a list of 8-bit characters).

  A value that arrives from \<open>JSON.parse\<close> is a \<open>json\<close>. An object is the list of its own
  properties in the order JavaScript enumerates them.
\<close>

datatype json =
    JNull
  | JBool bool
  | JNum rat
  | JStr string
  | JArr "json list"
  | JObj "(string \<times> json) list"

text \<open>
  \<open>interface SubItem\<close>, \<open>interface Item\<close>, \<open>interface Sprint\<close>, \<open>type GroupId\<close>,
  \<open>interface PlannerData\<close> and \<open>interface DragData\<close>. A field marked \<open>?\<close> in the source is an
  \<open>option\<close>. The two point fields are declared \<open>number | ""\<close>; since the annotation is erased
  at run time and import does not check it, they hold any \<open>json\<close> value here.
\<close>

record SubItem =
  sub_id :: string
  sub_text :: string

record Item =
  item_id :: string
  item_text :: string
  subItems :: "SubItem list"
  epic :: "string option"
  domain :: "string option"
  requiredPoints :: "json option"
  optionalPoints :: "json option"

record Sprint =
  sprint_id :: string
  sprint_name :: string
  multiplier :: rat

datatype GroupId =
  Staging | Committed | Milestones | Risks | Dependencies | WillNotDo | Uncommitted

record PlannerData =
  sprints :: "Sprint list"
  velocity :: rat
  items :: "GroupId \<Rightarrow> Item list"

record DragData =
  drag_item :: Item
  groupId :: GroupId

text \<open>The string a \<open>GroupId\<close> is at run time, and the keys of \<open>GROUP_CONFIG\<close> in order.\<close>

fun groupName :: "GroupId \<Rightarrow> string" where
  "groupName Staging = ''staging''"
| "groupName Committed = ''committed''"
| "groupName Milestones = ''milestones''"
| "groupName Risks = ''risks''"
| "groupName Dependencies = ''dependencies''"
| "groupName WillNotDo = ''willNotDo''"
| "groupName Uncommitted = ''uncommitted''"

definition allGroups :: "GroupId list" where
  "allGroups = [Staging, Committed, Milestones, Risks, Dependencies, WillNotDo, Uncommitted]"

definition GROUP_CONFIG_keys :: "string list" where
  "GROUP_CONFIG_keys = map groupName allGroups"

text \<open>The cast \<open>overId as GroupId\<close>: the group whose name the string is.\<close>

definition groupOfName :: "string \<Rightarrow> GroupId option" where
  "groupOfName s = find (\<lambda>g. groupName g = s) allGroups"

definition DEFAULT_DATA :: PlannerData where
  "DEFAULT_DATA = \<lparr>
     sprints = [
       \<lparr>sprint_id = ''s1'', sprint_name = ''S1'', multiplier = 100\<rparr>,
       \<lparr>sprint_id = ''s2'', sprint_name = ''S2'', multiplier = 95\<rparr>,
       \<lparr>sprint_id = ''s3'', sprint_name = ''S3'', multiplier = 90\<rparr>,
       \<lparr>sprint_id = ''s4'', sprint_name = ''S4'', multiplier = 80\<rparr>,
       \<lparr>sprint_id = ''s5'', sprint_name = ''S5'', multiplier = 70\<rparr>],
     velocity = 34,
     items = (\<lambda>g. [])\<rparr>"

section \<open>Array helpers of the platform\<close>

text \<open>\<open>Array.prototype.findIndex\<close>: the first index whose element satisfies \<open>p\<close>, or \<open>-1\<close>.\<close>

fun findIndex :: "('a \<Rightarrow> bool) \<Rightarrow> 'a list \<Rightarrow> int" where
  "findIndex p [] = -1"
| "findIndex p (x # xs) =
     (if p x then 0 else (let r = findIndex p xs in if r = -1 then -1 else r + 1))"

text \<open>\<open>copy.splice(start, 0, x)\<close> for \<open>0 \<le> start \<le> length\<close>: insert \<open>x\<close> before index \<open>start\<close>.\<close>

definition splice_insert :: "nat \<Rightarrow> 'a \<Rightarrow> 'a list \<Rightarrow> 'a list" where
  "splice_insert start x xs = take start xs @ [x] @ drop start xs"

text \<open>\<open>copy.splice(from, 1)\<close>: the list without the element at index \<open>from\<close>.\<close>

definition splice_remove :: "nat \<Rightarrow> 'a list \<Rightarrow> 'a list" where
  "splice_remove from xs = take from xs @ drop (Suc from) xs"

text \<open>
  \<open>arrayMove\<close> of @dnd-kit/sortable, which the source imports: on a copy, the element at
  \<open>from\<close> is removed and inserted again at \<open>to\<close> (a negative \<open>to\<close> counts from the end of the
  array as it was before the removal). It is called with indices \<open>findIndex\<close> found.
\<close>

definition arrayMove :: "'a list \<Rightarrow> int \<Rightarrow> int \<Rightarrow> 'a list" where
  "arrayMove array from to =
     (let start = (if to < 0 then int (length array) + to else to)
      in if 0 \<le> from \<and> from < int (length array) \<and> 0 \<le> start \<and> start < int (length array)
         then splice_insert (nat start) (array ! nat from) (splice_remove (nat from) array)
         else array)"

section \<open>Item mutations\<close>

text \<open>
  Every handler passes an updater \<open>prev \<Rightarrow> next\<close> to \<open>setData\<close>; the model is that updater.
  \<open>generateId\<close> reads the clock and a random number: the ids it returns are an argument,
  \<open>ids k\<close> being the result of the \<open>k\<close>-th call the handler makes.
\<close>

definition newItem :: "string \<Rightarrow> Item" where
  "newItem i = \<lparr>item_id = i, item_text = '''', subItems = [],
     epic = Some '''', domain = Some '''',
     requiredPoints = Some (JStr ''''), optionalPoints = Some (JStr '''')\<rparr>"

definition handleAddItem :: "(nat \<Rightarrow> string) \<Rightarrow> GroupId \<Rightarrow> PlannerData \<Rightarrow> PlannerData" where
  "handleAddItem ids g prev =
     prev\<lparr>items := (items prev)(g := items prev g @ [newItem (ids 0)])\<rparr>"

definition duplicatedItem :: "(nat \<Rightarrow> string) \<Rightarrow> Item \<Rightarrow> Item" where
  "duplicatedItem ids item =
     item\<lparr>item_id := ids 0,
          item_text := (if item_text item \<noteq> '''' then item_text item @ '' (copy)'' else ''''),
          subItems := map (\<lambda>(k, sub). sub\<lparr>sub_id := ids (Suc k)\<rparr>)
                         (enumerate 0 (subItems item))\<rparr>"

definition handleDuplicateItem ::
  "(nat \<Rightarrow> string) \<Rightarrow> GroupId \<Rightarrow> Item \<Rightarrow> PlannerData \<Rightarrow> PlannerData" where
  "handleDuplicateItem ids g item prev =
     prev\<lparr>items := (items prev)(g := items prev g @ [duplicatedItem ids item])\<rparr>"

datatype Direction = Up | Down

definition handleReorderItem ::
  "GroupId \<Rightarrow> string \<Rightarrow> Direction \<Rightarrow> PlannerData \<Rightarrow> PlannerData" where
  "handleReorderItem g itemId direction prev =
     (let its = items prev g;
          currentIndex = findIndex (\<lambda>i. item_id i = itemId) its
      in if currentIndex = -1 then prev
         else
           let newIndex = (if direction = Up then currentIndex - 1 else currentIndex + 1)
           in if newIndex < 0 \<or> newIndex \<ge> int (length its) then prev
              else
                let newItems = (its[nat currentIndex := its ! nat newIndex])
                                  [nat newIndex := its ! nat currentIndex]
                in prev\<lparr>items := (items prev)(g := newItems)\<rparr>)"

text \<open>
  \<open>Partial<Item>\<close>: the fields an update carries; \<open>None\<close> is a key the update does not have.
  \<open>{ ...item, ...updates }\<close> takes each field of \<open>updates\<close> that is there.
\<close>

record ItemUpdates =
  upd_id :: "string option"
  upd_text :: "string option"
  upd_subItems :: "SubItem list option"
  upd_epic :: "string option"
  upd_domain :: "string option"
  upd_requiredPoints :: "json option"
  upd_optionalPoints :: "json option"

definition applyUpdates :: "Item \<Rightarrow> ItemUpdates \<Rightarrow> Item" where
  "applyUpdates item u =
     \<lparr>item_id = (case upd_id u of None \<Rightarrow> item_id item | Some v \<Rightarrow> v),
      item_text = (case upd_text u of None \<Rightarrow> item_text item | Some v \<Rightarrow> v),
      subItems = (case upd_subItems u of None \<Rightarrow> subItems item | Some v \<Rightarrow> v),
      epic = (case upd_epic u of None \<Rightarrow> epic item | Some v \<Rightarrow> Some v),
      domain = (case upd_domain u of None \<Rightarrow> domain item | Some v \<Rightarrow> Some v),
      requiredPoints =
        (case upd_requiredPoints u of None \<Rightarrow> requiredPoints item | Some v \<Rightarrow> Some v),
      optionalPoints =
        (case upd_optionalPoints u of None \<Rightarrow> optionalPoints item | Some v \<Rightarrow> Some v)\<rparr>"

definition handleUpdateItem ::
  "GroupId \<Rightarrow> string \<Rightarrow> ItemUpdates \<Rightarrow> PlannerData \<Rightarrow> PlannerData" where
  "handleUpdateItem g itemId updates prev =
     prev\<lparr>items := (items prev)
       (g := map (\<lambda>item. if item_id item = itemId then applyUpdates item updates else item)
               (items prev g))\<rparr>"

definition handleDeleteItem :: "GroupId \<Rightarrow> string \<Rightarrow> PlannerData \<Rightarrow> PlannerData" where
  "handleDeleteItem g itemId prev =
     prev\<lparr>items := (items prev)(g := filter (\<lambda>item. item_id item \<noteq> itemId) (items prev g))\<rparr>"

section \<open>Drag-end resolution\<close>

text \<open>
  \<open>DragEndEvent\<close>: \<open>active\<close> is the dragged sortable (its id and the \<open>DragData\<close> it was
  rendered with), \<open>over\<close> is the droppable under the pointer, if any: an item (with its
  \<open>DragData\<close>) or the drop zone of a group (whose id is the group's name and which has no data).
\<close>

record Over =
  over_id :: string
  over_data :: "DragData option"

record DragEndEvent =
  active_id :: string
  active_data :: DragData
  over :: "Over option"

definition handleDragEnd :: "DragEndEvent \<Rightarrow> PlannerData \<Rightarrow> PlannerData" where
  "handleDragEnd event prev =
     (case over event of
        None \<Rightarrow> prev
      | Some ov \<Rightarrow>
          let activeId = active_id event;
              overId = over_id ov
          in if activeId = overId then prev
             else
               let dragData = active_data event;
                   sourceGroup = groupId dragData;
                   item = drag_item dragData
               in (case groupOfName overId of
                     Some destGroup \<Rightarrow>
                       if sourceGroup = destGroup then prev
                       else prev\<lparr>items := (items prev)
                              (sourceGroup :=
                                 filter (\<lambda>i. item_id i \<noteq> item_id item) (items prev sourceGroup),
                               destGroup := items prev destGroup @ [item])\<rparr>
                   | None \<Rightarrow>
                       let destGroup =
                             (case over_data ov of None \<Rightarrow> sourceGroup | Some od \<Rightarrow> groupId od)
                       in if sourceGroup = destGroup then
                            (let its = items prev sourceGroup;
                                 oldIndex = findIndex (\<lambda>i. item_id i = activeId) its;
                                 newIndex = findIndex (\<lambda>i. item_id i = overId) its
                             in if oldIndex = -1 \<or> newIndex = -1 then prev
                                else prev\<lparr>items := (items prev)
                                       (sourceGroup := arrayMove its oldIndex newIndex)\<rparr>)
                          else
                            (let destItems = items prev destGroup;
                                 newIndex = findIndex (\<lambda>i. item_id i = overId) destItems;
                                 newDestItems =
                                   splice_insert
                                     (if newIndex = -1 then length destItems else nat newIndex)
                                     item destItems
                             in prev\<lparr>items := (items prev)
                                  (sourceGroup :=
                                     filter (\<lambda>i. item_id i \<noteq> item_id item)
                                       (items prev sourceGroup),
                                   destGroup := newDestItems)\<rparr>)))"

section \<open>Statistics\<close>

text \<open>
  \<open>typeof v === "number" ? v : 0\<close>, for a field that may be absent, and \<open>Math.round\<close>
  (the nearest integer, a half rounding up).
\<close>

definition numberOr0 :: "json option \<Rightarrow> rat" where
  "numberOr0 v = (case v of Some (JNum n) \<Rightarrow> n | _ \<Rightarrow> 0)"

definition Math_round :: "rat \<Rightarrow> int" where
  "Math_round x = \<lfloor>x + 1 / 2\<rfloor>"

record Stats =
  required :: rat
  optional :: rat

definition calcStats :: "PlannerData \<Rightarrow> GroupId \<Rightarrow> Stats" where
  "calcStats data g =
     (let its = items data g
      in \<lparr>required = foldl (\<lambda>sum item. sum + numberOr0 (requiredPoints item)) 0 its,
          optional = foldl (\<lambda>sum item. sum + numberOr0 (optionalPoints item)) 0 its\<rparr>)"

definition totalPlanningPoints :: "PlannerData \<Rightarrow> rat" where
  "totalPlanningPoints data =
     foldl (\<lambda>sum s. sum + velocity data * (multiplier s / 100)) 0 (sprints data)"

definition committedPercent :: "PlannerData \<Rightarrow> int" where
  "committedPercent data =
     (if totalPlanningPoints data > 0
      then Math_round (required (calcStats data Committed) / totalPlanningPoints data * 100)
      else 0)"

definition committedRemaining :: "PlannerData \<Rightarrow> int" where
  "committedRemaining data =
     Math_round (totalPlanningPoints data - required (calcStats data Committed))"

subsection \<open>Objects used as dictionaries\<close>

text \<open>
  The own string keys of an ordinary object are enumerated with the array indices first,
  in ascending order, then the other keys in the order they were created. An array index is
  the canonical decimal numeral of a number below \<open>2^32 - 1\<close>.
\<close>

definition isDigit :: "char \<Rightarrow> bool" where
  "isDigit c = (48 \<le> (of_char c :: int) \<and> (of_char c :: int) \<le> 57)"

definition digitsValue :: "string \<Rightarrow> int" where
  "digitsValue s = foldl (\<lambda>n c. 10 * n + ((of_char c :: int) - 48)) 0 s"

definition isArrayIndex :: "string \<Rightarrow> bool" where
  "isArrayIndex s =
     (s \<noteq> [] \<and> list_all isDigit s \<and> (s = ''0'' \<or> hd s \<noteq> CHR ''0'')
      \<and> digitsValue s < 4294967295)"

fun insertIndexKey :: "string \<Rightarrow> 'v \<Rightarrow> (string \<times> 'v) list \<Rightarrow> (string \<times> 'v) list" where
  "insertIndexKey k v [] = [(k, v)]"
| "insertIndexKey k v ((k', v') # kvs) =
     (if isArrayIndex k' \<and> digitsValue k' < digitsValue k
      then (k', v') # insertIndexKey k v kvs
      else (k, v) # (k', v') # kvs)"

text \<open>\<open>obj[k] = v\<close>: an own key keeps its place; a new key goes where the enumeration puts it.\<close>

definition setOwn :: "string \<Rightarrow> 'v \<Rightarrow> string \<times> 'v \<Rightarrow> string \<times> 'v" where
  "setOwn k v kv = (if fst kv = k then (fst kv, v) else kv)"

definition objSet :: "string \<Rightarrow> 'v \<Rightarrow> (string \<times> 'v) list \<Rightarrow> (string \<times> 'v) list" where
  "objSet k v kvs =
     (if k \<in> set (map fst kvs) then map (setOwn k v) kvs
      else if isArrayIndex k then insertIndexKey k v kvs
      else kvs @ [(k, v)])"

subsection \<open>Domain breakdown\<close>


record DomainStat =
  ds_name :: string
  ds_points :: rat
  ds_percent :: int

text \<open>\<open>item.domain || "Unassigned"\<close>: an absent or empty label is \<open>Unassigned\<close>.\<close>

definition domainOf :: "Item \<Rightarrow> string" where
  "domainOf item =
     (case domain item of None \<Rightarrow> ''Unassigned''
      | Some d \<Rightarrow> if d = '''' then ''Unassigned'' else d)"

text \<open>The body of \<open>committedItems.forEach\<close>, on the pair \<open>(domains, totalPoints)\<close>.\<close>

definition domainStep ::
  "(string \<times> rat) list \<times> rat \<Rightarrow> Item \<Rightarrow> (string \<times> rat) list \<times> rat" where
  "domainStep acc item =
     (let domains = fst acc; totalPoints = snd acc;
          points = numberOr0 (requiredPoints item)
      in if points > 0
         then (objSet (domainOf item)
                 ((case map_of domains (domainOf item) of None \<Rightarrow> 0 | Some p \<Rightarrow> p) + points)
                 domains,
               totalPoints + points)
         else (domains, totalPoints))"

text \<open>
  \<open>Object.entries(domains).map(...).sort((a, b) => b.points - a.points)\<close>. The sort of an
  array is stable, and so is \<open>sort_key\<close>.
\<close>

definition domainBreakdown :: "PlannerData \<Rightarrow> DomainStat list" where
  "domainBreakdown data =
     (let acc = foldl domainStep ([], 0) (items data Committed);
          domains = fst acc; totalPoints = snd acc
      in sort_key (\<lambda>e. - ds_points e)
           (map (\<lambda>(name, points).
                   \<lparr>ds_name = name, ds_points = points,
                    ds_percent = (if totalPoints > 0
                                  then Math_round (points / totalPoints * 100) else 0)\<rparr>)
              domains))"

section \<open>JSON text\<close>

text \<open>
  \<open>JSON.stringify\<close> and \<open>JSON.parse\<close> belong to the platform, not to the planner. They are
  modelled after the JSON grammar, on 8-bit characters; a \<open>\u\<close> escape of a code unit
  above 255 is read modulo 256. Numbers are exact, and \<open>JSON.stringify\<close> writes an integer
  in plain decimal digits whatever its size.
\<close>

subsection \<open>Writing: \<open>JSON.stringify(value, null, 2)\<close>\<close>

definition digitChar :: "int \<Rightarrow> char" where
  "digitChar d = char_of (48 + d)"

function digitsOf :: "int \<Rightarrow> string" where
  "digitsOf n = (if n < 10 then [digitChar n] else digitsOf (n div 10) @ [digitChar (n mod 10)])"
  by pat_completeness auto
termination
  by (relation "measure nat") auto

declare digitsOf.simps [simp del]

definition intToString :: "int \<Rightarrow> string" where
  "intToString i = (if i < 0 then CHR ''-'' # digitsOf (- i) else digitsOf i)"

text \<open>The digits after the decimal point of \<open>r / d\<close>, at most \<open>fuel\<close> of them.\<close>

fun fracDigits :: "nat \<Rightarrow> int \<Rightarrow> int \<Rightarrow> string" where
  "fracDigits 0 r d = []"
| "fracDigits (Suc fuel) r d =
     (if r = 0 then [] else digitChar (10 * r div d) # fracDigits fuel (10 * r mod d) d)"

definition numToString :: "rat \<Rightarrow> string" where
  "numToString r =
     (let n = fst (quotient_of r); d = snd (quotient_of r)
      in if d = 1 then intToString n
         else (if n < 0 then ''-'' else '''') @ digitsOf (\<bar>n\<bar> div d) @ ''.''
              @ fracDigits (nat d) (\<bar>n\<bar> mod d) d)"

definition hexChar :: "int \<Rightarrow> char" where
  "hexChar d = (if d < 10 then char_of (48 + d) else char_of (87 + d))"

definition escapeChar :: "char \<Rightarrow> string" where
  "escapeChar c =
     (if c = CHR 0x22 then [CHR 0x5C, CHR 0x22]
      else if c = CHR 0x5C then [CHR 0x5C, CHR 0x5C]
      else if c = CHR 0x08 then [CHR 0x5C, CHR ''b'']
      else if c = CHR 0x0C then [CHR 0x5C, CHR ''f'']
      else if c = CHR 0x0A then [CHR 0x5C, CHR ''n'']
      else if c = CHR 0x0D then [CHR 0x5C, CHR ''r'']
      else if c = CHR 0x09 then [CHR 0x5C, CHR ''t'']
      else if (of_char c :: int) < 32
        then [CHR 0x5C, CHR ''u'', CHR ''0'', CHR ''0'',
              hexChar (of_char c div 16), hexChar (of_char c mod 16)]
      else [c])"

definition quote :: "string \<Rightarrow> string" where
  "quote s = CHR 0x22 # concat (map escapeChar s) @ [CHR 0x22]"

fun joinWith :: "string \<Rightarrow> string list \<Rightarrow> string" where
  "joinWith sep [] = []"
| "joinWith sep [x] = x"
| "joinWith sep (x # y # ys) = x @ sep @ joinWith sep (y # ys)"

definition newline :: "nat \<Rightarrow> string" where
  "newline ind = CHR 0x0A # replicate ind CHR '' ''"

fun stringifyAt :: "nat \<Rightarrow> json \<Rightarrow> string" where
  "stringifyAt ind JNull = ''null''"
| "stringifyAt ind (JBool b) = (if b then ''true'' else ''false'')"
| "stringifyAt ind (JNum r) = numToString r"
| "stringifyAt ind (JStr s) = quote s"
| "stringifyAt ind (JArr xs) =
     (if xs = [] then ''[]''
      else ''['' @ newline (ind + 2)
           @ joinWith ('','' @ newline (ind + 2)) (map (stringifyAt (ind + 2)) xs)
           @ newline ind @ '']'')"
| "stringifyAt ind (JObj kvs) =
     (if kvs = [] then ''{}''
      else ''{'' @ newline (ind + 2)
           @ joinWith ('','' @ newline (ind + 2))
               (map (\<lambda>kv. quote (fst kv) @ '': '' @ stringifyAt (ind + 2) (snd kv)) kvs)
           @ newline ind @ ''}'')"

definition JSON_stringify :: "json \<Rightarrow> string" where
  "JSON_stringify v = stringifyAt 0 v"

subsection \<open>Reading: \<open>JSON.parse\<close>\<close>

datatype token =
  TLBrace | TRBrace | TLBrack | TRBrack | TColon | TComma
  | TStr string | TNum rat | TTrue | TFalse | TNull

definition isWs :: "char \<Rightarrow> bool" where
  "isWs c = (c = CHR '' '' \<or> c = CHR 0x0A \<or> c = CHR 0x0D \<or> c = CHR 0x09)"

definition hexVal :: "char \<Rightarrow> int option" where
  "hexVal c =
     (let n = (of_char c :: int)
      in if 48 \<le> n \<and> n \<le> 57 then Some (n - 48)
         else if 97 \<le> n \<and> n \<le> 102 then Some (n - 87)
         else if 65 \<le> n \<and> n \<le> 70 then Some (n - 55)
         else None)"

definition unescape :: "char \<Rightarrow> char option" where
  "unescape e =
     (if e = CHR 0x22 then Some (CHR 0x22)
      else if e = CHR 0x5C then Some (CHR 0x5C)
      else if e = CHR ''/'' then Some (CHR ''/'')
      else if e = CHR ''b'' then Some (CHR 0x08)
      else if e = CHR ''f'' then Some (CHR 0x0C)
      else if e = CHR ''n'' then Some (CHR 0x0A)
      else if e = CHR ''r'' then Some (CHR 0x0D)
      else if e = CHR ''t'' then Some (CHR 0x09)
      else None)"

definition consFst :: "'a \<Rightarrow> ('a list \<times> 'b) option \<Rightarrow> ('a list \<times> 'b) option" where
  "consFst c r = (case r of None \<Rightarrow> None | Some p \<Rightarrow> Some (c # fst p, snd p))"

text \<open>The text after an opening quote: the string it spells, and what follows the closing quote.\<close>

fun lexString :: "string \<Rightarrow> (string \<times> string) option" where
  "lexString [] = None"
| "lexString (c # cs) =
     (if c = CHR 0x22 then Some ([], cs)
      else if c = CHR 0x5C then
        (case cs of
           [] \<Rightarrow> None
         | e # cs1 \<Rightarrow>
             if e = CHR ''u'' then
               (case cs1 of
                  h1 # h2 # h3 # h4 # cs2 \<Rightarrow>
                    (case (hexVal h1, hexVal h2, hexVal h3, hexVal h4) of
                       (Some a, Some b, Some c', Some d) \<Rightarrow>
                         consFst (char_of (((a * 16 + b) * 16 + c') * 16 + d)) (lexString cs2)
                     | _ \<Rightarrow> None)
                | _ \<Rightarrow> None)
             else
               (case unescape e of
                  None \<Rightarrow> None
                | Some c' \<Rightarrow> consFst c' (lexString cs1)))
      else if (of_char c :: int) < 32 then None
      else consFst c (lexString cs))"

definition numChar :: "char \<Rightarrow> bool" where
  "numChar c = (isDigit c \<or> c = CHR ''-'' \<or> c = CHR ''+'' \<or> c = CHR ''.''
                \<or> c = CHR ''e'' \<or> c = CHR ''E'')"

text \<open>
  The value of a number token: an optional minus, the integer part (no leading zero), an
  optional fraction, an optional exponent, and nothing more.
\<close>

definition parseNumber :: "string \<Rightarrow> rat option" where
  "parseNumber s =
     (let neg = (s \<noteq> [] \<and> hd s = CHR ''-'');
          s1 = (if neg then tl s else s);
          ip = takeWhile isDigit s1;
          s2 = dropWhile isDigit s1;
          hasFrac = (s2 \<noteq> [] \<and> hd s2 = CHR ''.'');
          fp = (if hasFrac then takeWhile isDigit (tl s2) else []);
          s3 = (if hasFrac then dropWhile isDigit (tl s2) else s2);
          hasExp = (s3 \<noteq> [] \<and> (hd s3 = CHR ''e'' \<or> hd s3 = CHR ''E''));
          s4 = (if hasExp then tl s3 else s3);
          expNeg = (hasExp \<and> s4 \<noteq> [] \<and> hd s4 = CHR ''-'');
          s5 = (if hasExp \<and> s4 \<noteq> [] \<and> (hd s4 = CHR ''-'' \<or> hd s4 = CHR ''+'') then tl s4 else s4);
          ep = (if hasExp then takeWhile isDigit s5 else []);
          s6 = (if hasExp then dropWhile isDigit s5 else s5)
      in if ip = [] \<or> (length ip > 1 \<and> hd ip = CHR ''0'') \<or> (hasFrac \<and> fp = [])
            \<or> (hasExp \<and> ep = []) \<or> s6 \<noteq> []
         then None
         else
           let m = of_int (digitsValue ip) + of_int (digitsValue fp) / 10 ^ length fp;
               x = (if expNeg then m / 10 ^ nat (digitsValue ep) else m * 10 ^ nat (digitsValue ep))
           in Some (if neg then - x else x))"

lemma lexString_length: "lexString cs = Some (s, r) \<Longrightarrow> length r \<le> length cs"
proof (induction cs arbitrary: s r rule: lexString.induct)
  case 1 then show ?case by simp
next
  case (2 c cs)
  then show ?case
    by (auto simp: consFst_def split: if_splits list.splits option.splits prod.splits) fastforce+
qed

function lexTokens :: "string \<Rightarrow> token list option" where
  "lexTokens [] = Some []"
| "lexTokens (c # cs) =
     (if isWs c then lexTokens cs
      else if c = CHR ''{'' then map_option (Cons TLBrace) (lexTokens cs)
      else if c = CHR ''}'' then map_option (Cons TRBrace) (lexTokens cs)
      else if c = CHR ''['' then map_option (Cons TLBrack) (lexTokens cs)
      else if c = CHR '']'' then map_option (Cons TRBrack) (lexTokens cs)
      else if c = CHR '':'' then map_option (Cons TColon) (lexTokens cs)
      else if c = CHR '','' then map_option (Cons TComma) (lexTokens cs)
      else if c = CHR 0x22 then
        (case lexString cs of
           None \<Rightarrow> None
         | Some p \<Rightarrow> map_option (Cons (TStr (fst p))) (lexTokens (snd p)))
      else if isDigit c \<or> c = CHR ''-'' then
        (case parseNumber (c # takeWhile numChar cs) of
           None \<Rightarrow> None
         | Some n \<Rightarrow> map_option (Cons (TNum n)) (lexTokens (dropWhile numChar cs)))
      else if c = CHR ''t'' \<and> take 3 cs = ''rue'' then map_option (Cons TTrue) (lexTokens (drop 3 cs))
      else if c = CHR ''f'' \<and> take 4 cs = ''alse'' then map_option (Cons TFalse) (lexTokens (drop 4 cs))
      else if c = CHR ''n'' \<and> take 3 cs = ''ull'' then map_option (Cons TNull) (lexTokens (drop 3 cs))
      else None)"
  by pat_completeness auto
termination
proof (relation "measure length")
  show "wf (measure length)" by simp
next
  fix c cs p
  assume "lexString cs = Some p"
  then have "length (snd p) \<le> length cs" using lexString_length[of cs "fst p" "snd p"] by simp
  then show "(snd p, c # cs) \<in> measure length" by simp
next
  fix c cs
  have "length (dropWhile numChar cs) \<le> length cs" by (rule length_dropWhile_le)
  then show "(dropWhile numChar cs, c # cs) \<in> measure length" by simp
qed simp_all

text \<open>
  The parser is a machine with a stack: a frame is an array or an object under construction
  (the array's elements so far, last first; the object's properties and the key being read).
\<close>

datatype frame = FArr "json list" | FObj "(string \<times> json) list" string

datatype pstate =
  ExpValue | ExpValueOrEnd | ExpKeyOrEnd | ExpKey | ExpColon | AfterValue | Done json

text \<open>A value is complete: it is the result, or it goes into the enclosing array or object.\<close>

fun completeValue :: "json \<Rightarrow> frame list \<Rightarrow> pstate \<times> frame list" where
  "completeValue v [] = (Done v, [])"
| "completeValue v (FArr acc # st) = (AfterValue, FArr (v # acc) # st)"
| "completeValue v (FObj kvs k # st) = (AfterValue, FObj (objSet k v kvs) k # st)"

fun openValue :: "token \<Rightarrow> frame list \<Rightarrow> (pstate \<times> frame list) option" where
  "openValue (TStr s) st = Some (completeValue (JStr s) st)"
| "openValue (TNum n) st = Some (completeValue (JNum n) st)"
| "openValue TTrue st = Some (completeValue (JBool True) st)"
| "openValue TFalse st = Some (completeValue (JBool False) st)"
| "openValue TNull st = Some (completeValue JNull st)"
| "openValue TLBrack st = Some (ExpValueOrEnd, FArr [] # st)"
| "openValue TLBrace st = Some (ExpKeyOrEnd, FObj [] [] # st)"
| "openValue _ st = None"

fun closeArray :: "frame list \<Rightarrow> (pstate \<times> frame list) option" where
  "closeArray (FArr acc # st) = Some (completeValue (JArr (rev acc)) st)"
| "closeArray _ = None"

fun closeObject :: "frame list \<Rightarrow> (pstate \<times> frame list) option" where
  "closeObject (FObj kvs k # st) = Some (completeValue (JObj kvs) st)"
| "closeObject _ = None"

fun readKey :: "token \<Rightarrow> frame list \<Rightarrow> (pstate \<times> frame list) option" where
  "readKey (TStr k) (FObj kvs k0 # st) = Some (ExpColon, FObj kvs k # st)"
| "readKey _ _ = None"

fun pstep :: "token \<Rightarrow> pstate \<times> frame list \<Rightarrow> (pstate \<times> frame list) option" where
  "pstep t (ExpValue, st) = openValue t st"
| "pstep t (ExpValueOrEnd, st) = (if t = TRBrack then closeArray st else openValue t st)"
| "pstep t (ExpKeyOrEnd, st) = (if t = TRBrace then closeObject st else readKey t st)"
| "pstep t (ExpKey, st) = readKey t st"
| "pstep t (ExpColon, st) = (if t = TColon then Some (ExpValue, st) else None)"
| "pstep t (AfterValue, st) =
     (if t = TRBrack then closeArray st
      else if t = TRBrace then closeObject st
      else if t = TComma then
        (case st of
           FArr acc # st' \<Rightarrow> Some (ExpValue, st)
         | FObj kvs k # st' \<Rightarrow> Some (ExpKey, st)
         | [] \<Rightarrow> None)
      else None)"
| "pstep t (Done v, st) = None"

fun prun :: "pstate \<times> frame list \<Rightarrow> token list \<Rightarrow> (pstate \<times> frame list) option" where
  "prun c [] = Some c"
| "prun c (t # ts) = (case pstep t c of None \<Rightarrow> None | Some c' \<Rightarrow> prun c' ts)"

definition parseTokens :: "token list \<Rightarrow> json option" where
  "parseTokens ts =
     (case prun (ExpValue, []) ts of
        Some (Done v, []) \<Rightarrow> Some v
      | _ \<Rightarrow> None)"

definition JSON_parse :: "string \<Rightarrow> json option" where
  "JSON_parse s = (case lexTokens s of None \<Rightarrow> None | Some ts \<Rightarrow> parseTokens ts)"

section \<open>Export, import and load\<close>

text \<open>
  At run time a document is a JavaScript value. \<open>encodeDoc\<close> is the value of a typed document:
  an absent optional field is a property the object does not have. \<open>exportDocument\<close> is the
  \<open>currentData\<close> the import/export dialog is given, \<open>JSON.stringify(data, null, 2)\<close>.
\<close>

definition optField :: "string \<Rightarrow> json option \<Rightarrow> (string \<times> json) list" where
  "optField k v = (case v of None \<Rightarrow> [] | Some x \<Rightarrow> [(k, x)])"

definition encodeSubItem :: "SubItem \<Rightarrow> json" where
  "encodeSubItem s = JObj [(''id'', JStr (sub_id s)), (''text'', JStr (sub_text s))]"

definition encodeItem :: "Item \<Rightarrow> json" where
  "encodeItem i =
     JObj ([(''id'', JStr (item_id i)), (''text'', JStr (item_text i)),
            (''subItems'', JArr (map encodeSubItem (subItems i)))]
           @ optField ''epic'' (map_option JStr (epic i))
           @ optField ''domain'' (map_option JStr (domain i))
           @ optField ''requiredPoints'' (requiredPoints i)
           @ optField ''optionalPoints'' (optionalPoints i))"

definition encodeSprint :: "Sprint \<Rightarrow> json" where
  "encodeSprint s =
     JObj [(''id'', JStr (sprint_id s)), (''name'', JStr (sprint_name s)),
           (''multiplier'', JNum (multiplier s))]"

definition encodeItems :: "(GroupId \<Rightarrow> Item list) \<Rightarrow> json" where
  "encodeItems its = JObj (map (\<lambda>g. (groupName g, JArr (map encodeItem (its g)))) allGroups)"

definition encodeDoc :: "PlannerData \<Rightarrow> json" where
  "encodeDoc d =
     JObj [(''sprints'', JArr (map encodeSprint (sprints d))),
           (''velocity'', JNum (velocity d)),
           (''items'', encodeItems (items d))]"

definition exportDocument :: "PlannerData \<Rightarrow> string" where
  "exportDocument d = JSON_stringify (encodeDoc d)"

subsection \<open>Object spread and property access\<close>

datatype jsError = TypeError | StorageError

text \<open>
  \<open>{ ...v }\<close> copies the own enumerable properties of \<open>v\<close>: those of an object, the indexed
  elements of an array, the indexed characters of a string, and nothing for \<open>null\<close>, a number
  or a boolean.
\<close>

definition spread :: "json \<Rightarrow> (string \<times> json) list" where
  "spread v =
     (case v of
        JObj kvs \<Rightarrow> kvs
      | JArr xs \<Rightarrow> map (\<lambda>(i, x). (intToString (int i), x)) (enumerate 0 xs)
      | JStr s \<Rightarrow> map (\<lambda>(i, c). (intToString (int i), JStr [c])) (enumerate 0 s)
      | _ \<Rightarrow> [])"

text \<open>An object literal defines its properties from left to right; a later one replaces.\<close>

definition objAssign :: "(string \<times> json) list \<Rightarrow> (string \<times> json) list \<Rightarrow> (string \<times> json) list" where
  "objAssign target props = foldl (\<lambda>obj kv. objSet (fst kv) (snd kv) obj) target props"

text \<open>The own property \<open>k\<close> of a value; in a property list the last entry of a key counts.\<close>

definition ownProperty :: "json \<Rightarrow> string \<Rightarrow> json option" where
  "ownProperty v k = map_of (rev (spread v)) k"

text \<open>
  \<open>parsed.items\<close>: reading a property of \<open>null\<close> throws a \<open>TypeError\<close>; any other value that
  \<open>JSON.parse\<close> returns has the property or gives \<open>undefined\<close>.
\<close>

definition readItems :: "json \<Rightarrow> jsError + json option" where
  "readItems v = (case v of JNull \<Rightarrow> Inl TypeError | _ \<Rightarrow> Inr (ownProperty v ''items''))"

text \<open>
  \<open>{ ...DEFAULT_DATA, ...parsed, items: { ...DEFAULT_DATA.items, ...parsed.items } }\<close>, the
  expression both \<open>loadFromStorage\<close> and \<open>handleImportData\<close> evaluate.
\<close>

definition mergeWithDefaults :: "json \<Rightarrow> jsError + json" where
  "mergeWithDefaults parsed =
     (case readItems parsed of
        Inl e \<Rightarrow> Inl e
      | Inr parsedItems \<Rightarrow>
          Inr (JObj (objSet ''items''
                 (JObj (objAssign (objAssign [] (spread (encodeItems (items DEFAULT_DATA))))
                          (case parsedItems of None \<Rightarrow> [] | Some v \<Rightarrow> spread v)))
                 (objAssign (objAssign [] (spread (encodeDoc DEFAULT_DATA))) (spread parsed)))))"

text \<open>
  \<open>loadFromStorage\<close>, given what \<open>localStorage.getItem\<close> did: it threw, it returned \<open>null\<close>
  or it returned a string. Every exception ends in the default document.
\<close>

definition loadFromStorage :: "jsError + string option \<Rightarrow> json" where
  "loadFromStorage stored =
     (case stored of
        Inl e \<Rightarrow> encodeDoc DEFAULT_DATA
      | Inr None \<Rightarrow> encodeDoc DEFAULT_DATA
      | Inr (Some saved) \<Rightarrow>
          if saved = [] then encodeDoc DEFAULT_DATA
          else
            (case JSON_parse saved of
               None \<Rightarrow> encodeDoc DEFAULT_DATA
             | Some parsed \<Rightarrow>
                 (case mergeWithDefaults parsed of
                    Inl e \<Rightarrow> encodeDoc DEFAULT_DATA
                  | Inr merged \<Rightarrow> merged)))"

text \<open>
  \<open>handleImportData\<close>, on the current document: the new document. An exception is caught
  and logged, and the document stays. (\<open>syncDomainColors\<close> runs after \<open>setData\<close> and inside
  the same \<open>try\<close>; the colour map is not part of the document.)
\<close>

definition handleImportData :: "string \<Rightarrow> json \<Rightarrow> json" where
  "handleImportData jsonString data =
     (case JSON_parse jsonString of
        None \<Rightarrow> data
      | Some imported \<Rightarrow>
          (case mergeWithDefaults imported of
             Inl e \<Rightarrow> data
           | Inr newData \<Rightarrow> newData))"

text \<open>
  The dialog (\<open>ImportExportModal\<close>): its text field, its error line and whether it is open.
  \<open>handleImport\<close> returns the dialog and the document after the click on Import.
  \<open>importText.trim()\<close> is empty when every character is white space.
\<close>

record ImportModal =
  importText :: string
  error_msg :: "string option"
  isOpen :: bool

definition isTrimSpace :: "char \<Rightarrow> bool" where
  "isTrimSpace c = ((of_char c :: int) \<in> set [9, 10, 11, 12, 13, 32, 160])"

definition handleImport :: "ImportModal \<Rightarrow> json \<Rightarrow> ImportModal \<times> json" where
  "handleImport m data =
     (if list_all isTrimSpace (importText m)
      then (m\<lparr>error_msg := Some ''Please paste JSON data to import''\<rparr>, data)
      else
        (case JSON_parse (importText m) of
           None \<Rightarrow> (m\<lparr>error_msg := Some ''Invalid JSON format. Please check your data.''\<rparr>, data)
         | Some v \<Rightarrow>
             (m\<lparr>importText := [], error_msg := None, isOpen := False\<rparr>,
              handleImportData (importText m) data)))"

subsection \<open>Documents that JSON text represents exactly\<close>

text \<open>
  A document is valid when its numbers are integers and each point field is absent, an
  integer or a string. A JSON value is canonical when its numbers are integers and the
  properties of its objects are listed as JavaScript enumerates them, each key once.
\<close>

definition isInteger :: "rat \<Rightarrow> bool" where
  "isInteger r = (snd (quotient_of r) = 1)"

definition pointsOk :: "json option \<Rightarrow> bool" where
  "pointsOk v =
     (case v of None \<Rightarrow> True | Some (JNum r) \<Rightarrow> isInteger r | Some (JStr s) \<Rightarrow> True
      | Some _ \<Rightarrow> False)"

definition validDocument :: "PlannerData \<Rightarrow> bool" where
  "validDocument d =
     (isInteger (velocity d) \<and> list_all (\<lambda>s. isInteger (multiplier s)) (sprints d)
      \<and> list_all (\<lambda>g. list_all (\<lambda>i. pointsOk (requiredPoints i) \<and> pointsOk (optionalPoints i))
                        (items d g)) allGroups)"

fun canonical :: "json \<Rightarrow> bool" where
  "canonical (JNum r) = isInteger r"
| "canonical (JArr xs) = list_all canonical xs"
| "canonical (JObj kvs) = (list_all (\<lambda>kv. canonical (snd kv)) kvs \<and> objAssign [] kvs = kvs)"
| "canonical _ = True"

text \<open>The tokens of a value, and a list of token groups with commas between them.\<close>

fun sepToks :: "token list list \<Rightarrow> token list" where
  "sepToks [] = []"
| "sepToks [x] = x"
| "sepToks (x # y # ys) = x @ TComma # sepToks (y # ys)"

fun tokensOf :: "json \<Rightarrow> token list" where
  "tokensOf JNull = [TNull]"
| "tokensOf (JBool b) = [if b then TTrue else TFalse]"
| "tokensOf (JNum r) = [TNum r]"
| "tokensOf (JStr s) = [TStr s]"
| "tokensOf (JArr xs) = TLBrack # sepToks (map tokensOf xs) @ [TRBrack]"
| "tokensOf (JObj kvs) =
     TLBrace # sepToks (map (\<lambda>kv. TStr (fst kv) # TColon # tokensOf (snd kv)) kvs) @ [TRBrace]"

section \<open>Notions the properties are stated with\<close>

text \<open>All items of a document, group after group, and the uniqueness of item ids.\<close>

definition allItems :: "PlannerData \<Rightarrow> Item list" where
  "allItems d = concat (map (items d) allGroups)"

definition uniqueIds :: "PlannerData \<Rightarrow> bool" where
  "uniqueIds d = distinct (map item_id (allItems d))"

text \<open>
  Replacing point values that are not numbers by absence: \<open>sel g k\<close> says, for the
  \<open>k\<close>-th item of group \<open>g\<close>, whether its required and its optional points are to be
  replaced; a number is never replaced.
\<close>

definition isNumber :: "json option \<Rightarrow> bool" where
  "isNumber v = (case v of Some (JNum n) \<Rightarrow> True | _ \<Rightarrow> False)"

definition erasePoints :: "bool \<Rightarrow> json option \<Rightarrow> json option" where
  "erasePoints b v = (if b \<and> \<not> isNumber v then None else v)"

definition eraseItem :: "bool \<times> bool \<Rightarrow> Item \<Rightarrow> Item" where
  "eraseItem bs item =
     item\<lparr>requiredPoints := erasePoints (fst bs) (requiredPoints item),
          optionalPoints := erasePoints (snd bs) (optionalPoints item)\<rparr>"

definition eraseDoc :: "(GroupId \<Rightarrow> nat \<Rightarrow> bool \<times> bool) \<Rightarrow> PlannerData \<Rightarrow> PlannerData" where
  "eraseDoc sel d =
     d\<lparr>items := (\<lambda>g. map (\<lambda>(k, item). eraseItem (sel g k) item) (enumerate 0 (items d g)))\<rparr>"

text \<open>
  The typed reading of a run-time document: the fields the TypeScript code reads
  (\<open>data.velocity\<close>, \<open>data.items[groupId]\<close>, \<open>item.domain\<close>, ...), an absent property being an
  absent field.
\<close>

definition strProp :: "json \<Rightarrow> string \<Rightarrow> string" where
  "strProp v k = (case ownProperty v k of Some (JStr s) \<Rightarrow> s | _ \<Rightarrow> [])"

definition optStrProp :: "json \<Rightarrow> string \<Rightarrow> string option" where
  "optStrProp v k = (case ownProperty v k of Some (JStr s) \<Rightarrow> Some s | _ \<Rightarrow> None)"

definition numProp :: "json \<Rightarrow> string \<Rightarrow> rat" where
  "numProp v k = (case ownProperty v k of Some (JNum r) \<Rightarrow> r | _ \<Rightarrow> 0)"

definition arrProp :: "json \<Rightarrow> string \<Rightarrow> json list" where
  "arrProp v k = (case ownProperty v k of Some (JArr xs) \<Rightarrow> xs | _ \<Rightarrow> [])"

definition decodeSubItem :: "json \<Rightarrow> SubItem" where
  "decodeSubItem v = \<lparr>sub_id = strProp v ''id'', sub_text = strProp v ''text''\<rparr>"

definition decodeItem :: "json \<Rightarrow> Item" where
  "decodeItem v =
     \<lparr>item_id = strProp v ''id'', item_text = strProp v ''text'',
      subItems = map decodeSubItem (arrProp v ''subItems''),
      epic = optStrProp v ''epic'', domain = optStrProp v ''domain'',
      requiredPoints = ownProperty v ''requiredPoints'',
      optionalPoints = ownProperty v ''optionalPoints''\<rparr>"

definition decodeSprint :: "json \<Rightarrow> Sprint" where
  "decodeSprint v =
     \<lparr>sprint_id = strProp v ''id'', sprint_name = strProp v ''name'',
      multiplier = numProp v ''multiplier''\<rparr>"

definition decodeDoc :: "json \<Rightarrow> PlannerData" where
  "decodeDoc v =
     \<lparr>sprints = map decodeSprint (arrProp v ''sprints''),
      velocity = numProp v ''velocity'',
      items = (\<lambda>g. map decodeItem
                 (case ownProperty v ''items'' of
                    None \<Rightarrow> []
                  | Some iv \<Rightarrow> arrProp iv (groupName g)))\<rparr>"

text \<open>A small valid document for the round trip: one sprint, one item with a sub-item.\<close>

definition smallDoc :: PlannerData where
  "smallDoc =
     \<lparr>sprints = [\<lparr>sprint_id = ''s1'', sprint_name = ''S1'', multiplier = 90\<rparr>],
      velocity = 20,
      items = (\<lambda>g. [])
        (Committed := [\<lparr>item_id = ''i1'', item_text = [CHR 0x22, CHR 0x5C, CHR 0x0A],
                        subItems = [\<lparr>sub_id = ''u1'', sub_text = ''x''\<rparr>],
                        epic = None, domain = Some ''api'',
                        requiredPoints = Some (JNum 8), optionalPoints = Some (JStr '''')\<rparr>])\<rparr>"

section \<open>Example documents\<close>

text \<open>
  A small board on which the properties below are also evaluated: one sprint at full velocity
  100 (capacity 100), two staged items, four committed ones. Of the committed items, two
  carry numbers (10, and 20 with 5 optional) and two carry strings.
\<close>

definition mkItem :: "string \<Rightarrow> string option \<Rightarrow> json option \<Rightarrow> json option \<Rightarrow> Item" where
  "mkItem i lbl req opt =
     \<lparr>item_id = i, item_text = ''task '' @ i, subItems = [], epic = None, domain = lbl,
      requiredPoints = req, optionalPoints = opt\<rparr>"

definition exampleDoc :: PlannerData where
  "exampleDoc =
     \<lparr>sprints = [\<lparr>sprint_id = ''s1'', sprint_name = ''S1'', multiplier = 100\<rparr>],
      velocity = 100,
      items = (\<lambda>g. [])
        (Staging := [mkItem ''a'' None None None,
                     mkItem ''b'' (Some ''ui'') (Some (JStr '''')) (Some (JStr ''5''))],
         Committed := [mkItem ''c0'' (Some ''api'') (Some (JNum 10)) None,
                       mkItem ''c1'' None (Some (JNum 20)) (Some (JNum 5)),
                       mkItem ''c2'' (Some ''ui'') (Some (JStr '''')) None,
                       mkItem ''c3'' (Some ''api'') (Some (JStr ''5'')) (Some (JStr ''3''))])\<rparr>"



text \<open>Item \<open>a\<close> of the staging group dropped on item \<open>c2\<close>, the third of the committed group.\<close>

definition exampleDrop :: DragEndEvent where
  "exampleDrop =
     \<lparr>active_id = ''a'',
      active_data = \<lparr>drag_item = mkItem ''a'' None None None, groupId = Staging\<rparr>,
      over = Some \<lparr>over_id = ''c2'',
                   over_data = Some \<lparr>drag_item = mkItem ''c2'' (Some ''ui'') (Some (JStr '''')) None,
                                     groupId = Committed\<rparr>\<rparr>\<rparr>"

text \<open>A stored text that has a velocity and one group, and neither sprints nor other groups.\<close>

definition partialValue :: json where
  "partialValue = JObj [(''velocity'', JNum 7), (''items'', JObj [(''risks'', JArr [JStr ''r'']) ])]"

definition partialStored :: string where
  "partialStored = JSON_stringify partialValue"

section \<open>Auxiliary lemmas\<close>

lemma findIndex_ge: "- 1 \<le> findIndex p xs"
  by (induction xs) (auto simp: Let_def)

lemma findIndex_lt: "findIndex p xs < int (length xs)"
  by (induction xs) (auto simp: Let_def)

lemma findIndex_none: "(findIndex p xs = - 1) = (\<forall>x\<in>set xs. \<not> p x)"
proof (induction xs)
  case Nil show ?case by simp
next
  case (Cons x xs)
  have "- 1 \<le> findIndex p xs" by (rule findIndex_ge)
  with Cons show ?case by (auto simp: Let_def)
qed

lemma findIndex_prefix:
  "\<forall>y\<in>set ys. \<not> p y \<Longrightarrow> p x \<Longrightarrow> findIndex p (ys @ x # zs) = int (length ys)"
  by (induction ys) (auto simp: Let_def)

lemma reorder_notfound:
  "\<forall>x\<in>set (items d g). item_id x \<noteq> i \<Longrightarrow> handleReorderItem g i dir d = d"
  by (simp add: handleReorderItem_def Let_def findIndex_none)

lemma reorder_first_up:
  "items d g = x # xs \<Longrightarrow> item_id x = i \<Longrightarrow> handleReorderItem g i Up d = d"
  by (simp add: handleReorderItem_def Let_def)

lemma reorder_last_down:
  "items d g = ys @ [x] \<Longrightarrow> item_id x = i \<Longrightarrow> \<forall>y\<in>set ys. item_id y \<noteq> i
   \<Longrightarrow> handleReorderItem g i Down d = d"
  using findIndex_prefix[of ys "\<lambda>y. item_id y = i" x "[]"]
  by (simp add: handleReorderItem_def Let_def)

lemma reorder_up:
  assumes "items d g = ys @ [a, b] @ zs" "item_id b = i" "item_id a \<noteq> i" "\<forall>y\<in>set ys. item_id y \<noteq> i"
  shows "handleReorderItem g i Up d = d\<lparr>items := (items d)(g := ys @ [b, a] @ zs)\<rparr>"
proof -
  have "findIndex (\<lambda>y. item_id y = i) ((ys @ [a]) @ b # zs) = int (length (ys @ [a]))"
    by (rule findIndex_prefix) (use assms in auto)
  then have fi: "findIndex (\<lambda>y. item_id y = i) (ys @ a # b # zs) = int (length ys) + 1"
    by simp
  have n1: "nat (int (length ys) + 1) = Suc (length ys)" by simp
  show ?thesis
    using assms(1) by (simp add: handleReorderItem_def Let_def fi n1 nth_append list_update_append)
qed

lemma reorder_down:
  assumes "items d g = ys @ [a, b] @ zs" "item_id a = i" "\<forall>y\<in>set ys. item_id y \<noteq> i"
  shows "handleReorderItem g i Down d = d\<lparr>items := (items d)(g := ys @ [b, a] @ zs)\<rparr>"
proof -
  have fi: "findIndex (\<lambda>y. item_id y = i) (ys @ a # b # zs) = int (length ys)"
    by (simp add: findIndex_prefix assms)
  have n1: "nat (int (length ys) + 1) = Suc (length ys)" by simp
  show ?thesis
    using assms(1) by (simp add: handleReorderItem_def Let_def fi n1 nth_append list_update_append)
qed


lemma numberOr0_erase: "numberOr0 (erasePoints b v) = numberOr0 v"
  by (auto simp: numberOr0_def erasePoints_def isNumber_def split: option.splits json.splits)

lemma foldl_enum_cong:
  "(\<And>k x a. f a (h k x) = f' a x) \<Longrightarrow>
   foldl f a (map (\<lambda>(k, x). h k x) (enumerate n xs)) = foldl f' a xs"
  by (induction xs arbitrary: a n) simp_all

lemma calcStats_erase: "calcStats (eraseDoc sel d) g = calcStats d g"
  by (simp add: calcStats_def eraseDoc_def Let_def eraseItem_def numberOr0_erase
       foldl_enum_cong[where h="\<lambda>k item. eraseItem (sel g k) item" for g, unfolded eraseItem_def])

lemma UNIV_GroupId: "UNIV = set allGroups"
proof -
  have "g \<in> set allGroups" for g by (cases g) (simp_all add: allGroups_def)
  then show ?thesis by auto
qed

lemma set_allItems: "set (allItems d) = (\<Union>g. set (items d g))"
  by (simp add: allItems_def UNIV_GroupId)

lemma filter_unique_remove1:
  "distinct (map f xs) \<Longrightarrow> x \<in> set xs \<Longrightarrow> filter (\<lambda>y. f y \<noteq> f x) xs = remove1 x xs"
proof (induction xs)
  case Nil then show ?case by simp
next
  case (Cons y ys)
  show ?case
  proof (cases "y = x")
    case True
    have "f x \<notin> f ` set ys" using Cons.prems(1) True by simp
    then have "\<forall>z\<in>set ys. f z \<noteq> f x" by (metis imageI)
    then have "filter (\<lambda>y. f y \<noteq> f x) ys = ys" by (simp add: filter_id_conv)
    with True show ?thesis by simp
  next
    case False
    then have "x \<in> set ys" using Cons.prems(2) by simp
    moreover have "f y \<noteq> f x" using Cons.prems(1) \<open>x \<in> set ys\<close> by auto
    ultimately show ?thesis using Cons False by simp
  qed
qed

lemma mset_splice_insert: "mset (splice_insert k x xs) = add_mset x (mset xs)"
proof -
  have "mset (take k xs) + mset (drop k xs) = mset xs"
    by (metis append_take_drop_id mset_append)
  then show ?thesis by (simp add: splice_insert_def)
qed

lemma mset_allItems_upd2:
  "src \<noteq> dst \<Longrightarrow>
   mset (allItems (d\<lparr>items := (items d)(src := a, dst := b)\<rparr>)) + mset (items d src) + mset (items d dst)
   = mset (allItems d) + mset a + mset b"
  by (cases src; cases dst; simp add: allItems_def allGroups_def)

lemma mset_allItems_move:
  assumes "src \<noteq> dst" "x \<in> set (items d src)" "distinct (map item_id (items d src))"
      and "mset b = add_mset x (mset (items d dst))"
  shows "mset (allItems (d\<lparr>items := (items d)
            (src := filter (\<lambda>i. item_id i \<noteq> item_id x) (items d src), dst := b)\<rparr>))
         = mset (allItems d)"
proof -
  let ?a = "filter (\<lambda>i. item_id i \<noteq> item_id x) (items d src)"
  have a: "?a = remove1 x (items d src)"
    using assms(2,3) by (rule filter_unique_remove1[rotated])
  have "add_mset x (mset ?a) = mset (items d src)"
    using assms(2) by (simp add: a)
  then have "mset ?a + mset b = mset (items d src) + mset (items d dst)"
    using assms(4) by (metis union_mset_add_mset_left union_mset_add_mset_right)
  moreover have "mset (allItems (d\<lparr>items := (items d)(src := ?a, dst := b)\<rparr>))
       + mset (items d src) + mset (items d dst) = mset (allItems d) + mset ?a + mset b"
    using assms(1) by (rule mset_allItems_upd2)
  ultimately show ?thesis
    by (metis add.assoc add_right_imp_eq)
qed

lemma uniqueIds_group: "uniqueIds d \<Longrightarrow> distinct (map item_id (items d g))"
  by (cases g) (simp_all add: uniqueIds_def allItems_def allGroups_def)

lemma uniqueIds_mset:
  "mset (allItems d') = mset (allItems d) \<Longrightarrow> uniqueIds d' = uniqueIds d"
proof -
  assume "mset (allItems d') = mset (allItems d)"
  then have "mset (map item_id (allItems d')) = mset (map item_id (allItems d))"
    by (metis mset_map)
  then show ?thesis unfolding uniqueIds_def by (rule mset_eq_imp_distinct_iff)
qed

lemma handleDragEnd_cross:
  assumes "over ev = Some ov" "active_id ev \<noteq> over_id ov"
      and "groupOfName (over_id ov) = Some dst
           \<or> (groupOfName (over_id ov) = None \<and> over_data ov = Some od \<and> groupId od = dst)"
      and "dst \<noteq> groupId (active_data ev)"
  shows "\<exists>b. mset b = add_mset (drag_item (active_data ev)) (mset (items d dst)) \<and>
     handleDragEnd ev d = d\<lparr>items := (items d)
       (groupId (active_data ev) :=
          filter (\<lambda>i. item_id i \<noteq> item_id (drag_item (active_data ev)))
            (items d (groupId (active_data ev))),
        dst := b)\<rparr>"
proof -
  let ?it = "drag_item (active_data ev)"
  let ?k = "findIndex (\<lambda>i. item_id i = over_id ov) (items d dst)"
  from assms(3) show ?thesis
  proof
    assume "groupOfName (over_id ov) = Some dst"
    then show ?thesis
      using assms(1,2,4)
      by (intro exI[of _ "items d dst @ [?it]"]) (simp add: handleDragEnd_def Let_def)
  next
    assume "groupOfName (over_id ov) = None \<and> over_data ov = Some od \<and> groupId od = dst"
    then show ?thesis
      using assms(1,2,4)
      by (intro exI[of _ "splice_insert (if ?k = - 1 then length (items d dst) else nat ?k) ?it (items d dst)"])
         (simp add: handleDragEnd_def Let_def mset_splice_insert)
  qed
qed


lemma distinct_concat_map_same:
  "distinct (concat (map h gs)) \<Longrightarrow> g \<in> set gs \<Longrightarrow> g' \<in> set gs
   \<Longrightarrow> v \<in> set (h g) \<Longrightarrow> v \<in> set (h g') \<Longrightarrow> g = g'"
proof (induction gs)
  case Nil then show ?case by simp
next
  case (Cons a gs)
  from Cons.prems(1) have d: "distinct (concat (map h gs))"
    and dj: "set (h a) \<inter> (\<Union>x\<in>set gs. set (h x)) = {}" by auto
  show ?case
  proof (cases "g = a")
    case True
    show ?thesis
    proof (cases "g' = a")
      case True with \<open>g = a\<close> show ?thesis by simp
    next
      case False
      then have "g' \<in> set gs" using Cons.prems(3) by simp
      then have "v \<in> (\<Union>x\<in>set gs. set (h x))" using Cons.prems(5) by blast
      with dj Cons.prems(4) True show ?thesis by blast
    qed
  next
    case False
    then have g: "g \<in> set gs" using Cons.prems(2) by simp
    show ?thesis
    proof (cases "g' = a")
      case True
      have "v \<in> (\<Union>x\<in>set gs. set (h x))" using g Cons.prems(4) by blast
      with dj Cons.prems(5) True show ?thesis by blast
    next
      case False
      then have "g' \<in> set gs" using Cons.prems(3) by simp
      with Cons.IH d g Cons.prems(4,5) show ?thesis by blast
    qed
  qed
qed

lemma uniqueIds_same_group:
  assumes "uniqueIds d" "x \<in> set (items d g)" "y \<in> set (items d g')" "item_id x = item_id y"
  shows "g = g'"
proof -
  let ?h = "\<lambda>g. map item_id (items d g)"
  have dc: "distinct (concat (map ?h allGroups))"
    using assms(1) by (simp add: uniqueIds_def allItems_def map_concat comp_def)
  have "g \<in> set allGroups" "g' \<in> set allGroups"
    using UNIV_GroupId by auto
  moreover have "item_id x \<in> set (?h g)" using assms(2) by simp
  moreover have "item_id x \<in> set (?h g')" using assms(3,4) by simp
  ultimately show ?thesis using dc by (rule distinct_concat_map_same[rotated])
qed

lemma domainOf_erase: "domainOf (eraseItem bs item) = domainOf item"
  by (simp add: domainOf_def eraseItem_def)

lemma domainStep_erase: "domainStep acc (eraseItem bs item) = domainStep acc item"
  by (simp add: domainStep_def domainOf_erase Let_def) (simp add: eraseItem_def numberOr0_erase)

lemma domainBreakdown_erase: "domainBreakdown (eraseDoc sel d) = domainBreakdown d"
proof -
  have "foldl domainStep a (map (\<lambda>(k, item). eraseItem (sel Committed k) item) (enumerate 0 xs))
        = foldl domainStep a xs" for a xs
    by (rule foldl_enum_cong) (rule domainStep_erase)
  then show ?thesis by (simp add: domainBreakdown_def eraseDoc_def)
qed


lemma mset_keys_insertIndexKey:
  "mset (map fst (insertIndexKey k v kvs)) = mset (k # map fst kvs)"
  by (induction k v kvs rule: insertIndexKey.induct) simp_all

lemma distinct_insertIndexKey:
  "distinct (map fst (insertIndexKey k v kvs)) = (k \<notin> fst ` set kvs \<and> distinct (map fst kvs))"
  using mset_eq_imp_distinct_iff[OF mset_keys_insertIndexKey[of k v kvs]] by simp

lemma map_of_insertIndexKey:
  "k \<notin> fst ` set kvs \<Longrightarrow>
   map_of (insertIndexKey k v kvs) k' = (if k' = k then Some v else map_of kvs k')"
  by (induction k v kvs rule: insertIndexKey.induct) (auto simp: image_iff)


lemma fst_setOwn: "fst (setOwn k v kv) = fst kv"
  by (simp add: setOwn_def)

lemma snd_setOwn: "snd (setOwn k v kv) = (if fst kv = k then v else snd kv)"
  by (simp add: setOwn_def)

lemma map_fst_setOwn: "map fst (map (setOwn k v) kvs) = map fst kvs"
  by (induction kvs) (simp_all add: fst_setOwn)

lemma map_of_setOwn:
  "map_of (map (setOwn k v) kvs) k'
   = (if k' = k \<and> k \<in> fst ` set kvs then Some v else map_of kvs k')"
proof (induction kvs)
  case Nil show ?case by simp
next
  case (Cons a kvs)
  obtain k1 v1 where a: "a = (k1, v1)" by (cases a)
  have s: "setOwn k v (k1, v1) = (if k1 = k then (k1, v) else (k1, v1))"
    by (simp add: setOwn_def)
  show ?case
  proof (cases "k \<in> fst ` set kvs")
    case True then show ?thesis using Cons.IH by (auto simp: a s)
  next
    case False then show ?thesis using Cons.IH by (simp add: a s)
  qed
qed




lemma distinct_objSet: "distinct (map fst kvs) \<Longrightarrow> distinct (map fst (objSet k v kvs))"
  by (simp add: objSet_def map_fst_setOwn distinct_insertIndexKey del: map_map)

lemma map_of_objSet: "map_of (objSet k v kvs) k' = (if k' = k then Some v else map_of kvs k')"
proof (cases "k \<in> fst ` set kvs")
  case True
  then show ?thesis by (simp add: objSet_def map_of_setOwn)
next
  case False
  then have n: "map_of kvs k = None" by (simp add: map_of_eq_None_iff)
  show ?thesis
  proof (cases "isArrayIndex k")
    case True
    then show ?thesis using False by (simp add: objSet_def map_of_insertIndexKey)
  next
    case i: False
    have "map_of (kvs @ [(k, v)]) k' = (if k' = k then Some v else map_of kvs k')"
      using n by (simp add: map_add_def split: option.splits)
    then show ?thesis using False i by (simp add: objSet_def)
  qed
qed










lemma sum_eq_sum_positive:
  "\<forall>x\<in>set xs. 0 \<le> f x \<Longrightarrow>
   sum_list (map f (filter (\<lambda>x. 0 < f x) xs) :: rat list) = sum_list (map f xs)"
  by (induction xs) auto







lemma map_of_rev_distinct: "distinct (map fst xs) \<Longrightarrow> map_of (rev xs) = map_of xs"
proof -
  assume d: "distinct (map fst xs)"
  then have "distinct (map fst (rev xs))" by (simp add: rev_map[symmetric])
  then show ?thesis using d by (simp add: map_of_inject_set)
qed

lemma map_of_objAssign:
  "map_of (objAssign t ps) k
   = (case map_of (rev ps) k of Some v \<Rightarrow> Some v | None \<Rightarrow> map_of t k)"
proof (induction ps arbitrary: t)
  case Nil show ?case by (simp add: objAssign_def)
next
  case (Cons p ps)
  have "objAssign t (p # ps) = objAssign (objSet (fst p) (snd p) t) ps"
    by (simp add: objAssign_def)
  then show ?case
    using Cons.IH[of "objSet (fst p) (snd p) t"]
    by (cases p) (auto simp: map_of_objSet map_add_def split: option.splits)
qed

lemma distinct_objAssign:
  "distinct (map fst t) \<Longrightarrow> distinct (map fst (objAssign t ps))"
proof (induction ps arbitrary: t)
  case Nil then show ?case by (simp add: objAssign_def)
next
  case (Cons p ps)
  have "objAssign t (p # ps) = objAssign (objSet (fst p) (snd p) t) ps"
    by (simp add: objAssign_def)
  then show ?case using Cons.IH[OF distinct_objSet[OF Cons.prems]] by simp
qed

lemma spread_JObj: "spread (JObj kvs) = kvs"
  by (simp add: spread_def)

lemma ownProperty_JObj_distinct:
  "distinct (map fst kvs) \<Longrightarrow> ownProperty (JObj kvs) k = map_of kvs k"
  by (simp add: ownProperty_def spread_JObj map_of_rev_distinct)

lemma readItems_not_null: "v \<noteq> JNull \<Longrightarrow> readItems v = Inr (ownProperty v ''items'')"
  by (cases v) (simp_all add: readItems_def)

lemma mergeWithDefaults_null: "mergeWithDefaults JNull = Inl TypeError"
  by (simp add: mergeWithDefaults_def readItems_def)

text \<open>What the merge is, property by property.\<close>

lemma mergeWithDefaults_properties:
  assumes "v \<noteq> JNull"
  shows "\<exists>top its. mergeWithDefaults v = Inr (JObj top)
     \<and> ownProperty (JObj top) ''items'' = Some (JObj its)
     \<and> (\<forall>k. k \<noteq> ''items'' \<longrightarrow>
           ownProperty (JObj top) k
             = (case ownProperty v k of Some x \<Rightarrow> Some x
                | None \<Rightarrow> ownProperty (encodeDoc DEFAULT_DATA) k))
     \<and> (\<forall>k. ownProperty (JObj its) k
             = (case (case ownProperty v ''items'' of None \<Rightarrow> None
                      | Some iv \<Rightarrow> ownProperty iv k) of
                  Some x \<Rightarrow> Some x
                | None \<Rightarrow> ownProperty (encodeItems (items DEFAULT_DATA)) k))"
proof -
  let ?pi = "case ownProperty v ''items'' of None \<Rightarrow> [] | Some iv \<Rightarrow> spread iv"
  let ?its = "objAssign (objAssign [] (spread (encodeItems (items DEFAULT_DATA)))) ?pi"
  let ?top = "objSet ''items'' (JObj ?its)
                (objAssign (objAssign [] (spread (encodeDoc DEFAULT_DATA))) (spread v))"
  have m: "mergeWithDefaults v = Inr (JObj ?top)"
    by (simp add: mergeWithDefaults_def readItems_not_null[OF assms])
  have dt: "distinct (map fst ?top)"
    by (intro distinct_objSet distinct_objAssign) simp
  have di: "distinct (map fst ?its)"
    by (intro distinct_objAssign) simp
  have pt: "ownProperty (JObj ?top) k = map_of ?top k" for k
    by (rule ownProperty_JObj_distinct[OF dt])
  have pi: "ownProperty (JObj ?its) k = map_of ?its k" for k
    by (rule ownProperty_JObj_distinct[OF di])
  have a: "ownProperty (JObj ?top) ''items'' = Some (JObj ?its)"
    unfolding pt by (simp add: map_of_objSet)
  have b: "ownProperty (JObj ?top) k
             = (case ownProperty v k of Some x \<Rightarrow> Some x
                | None \<Rightarrow> ownProperty (encodeDoc DEFAULT_DATA) k)" if "k \<noteq> ''items''" for k
  proof -
    have "map_of ?top k
            = (case map_of (rev (spread v)) k of Some x \<Rightarrow> Some x
               | None \<Rightarrow> map_of (rev (spread (encodeDoc DEFAULT_DATA))) k)"
      using that by (simp add: map_of_objSet map_of_objAssign split: option.splits)
    then show ?thesis unfolding pt by (simp only: ownProperty_def)
  qed
  have c: "ownProperty (JObj ?its) k
             = (case (case ownProperty v ''items'' of None \<Rightarrow> None
                      | Some iv \<Rightarrow> ownProperty iv k) of
                  Some x \<Rightarrow> Some x
                | None \<Rightarrow> ownProperty (encodeItems (items DEFAULT_DATA)) k)" for k
  proof -
    have "map_of ?its k
            = (case map_of (rev ?pi) k of Some x \<Rightarrow> Some x
               | None \<Rightarrow> map_of (rev (spread (encodeItems (items DEFAULT_DATA)))) k)"
      by (simp add: map_of_objAssign split: option.splits)
    moreover have "map_of (rev ?pi) k
            = (case ownProperty v ''items'' of None \<Rightarrow> None | Some iv \<Rightarrow> ownProperty iv k)"
      by (simp add: ownProperty_def split: option.splits)
    ultimately show ?thesis unfolding pi by (simp only: ownProperty_def)
  qed
  from m a b c show ?thesis by blast
qed

lemma defaults_have_all_keys:
  "ownProperty (encodeDoc DEFAULT_DATA) ''sprints''
     = Some (JArr (map encodeSprint (sprints DEFAULT_DATA)))"
  "ownProperty (encodeDoc DEFAULT_DATA) ''velocity'' = Some (JNum 34)"
  "ownProperty (encodeItems (items DEFAULT_DATA)) (groupName g) = Some (JArr [])"
  by (cases g; simp add: ownProperty_def spread_def encodeDoc_def encodeItems_def
        DEFAULT_DATA_def allGroups_def)+

lemma trimSpace_not_token_start:
  assumes "isTrimSpace c"
  shows "c \<noteq> CHR ''{''" "c \<noteq> CHR ''}''" "c \<noteq> CHR ''[''" "c \<noteq> CHR '']''"
    "c \<noteq> CHR '':''" "c \<noteq> CHR '',''" "c \<noteq> CHR 0x22" "c \<noteq> CHR ''-''"
    "c \<noteq> CHR ''t''" "c \<noteq> CHR ''f''" "c \<noteq> CHR ''n''" "\<not> isDigit c"
  using assms by (auto simp: isTrimSpace_def isDigit_def)

lemma lex_blank: "list_all isTrimSpace s \<Longrightarrow> lexTokens s = None \<or> lexTokens s = Some []"
proof (induction s)
  case Nil show ?case by simp
next
  case (Cons c s)
  from Cons.prems have c: "isTrimSpace c" and s: "list_all isTrimSpace s"
    by simp_all
  have ih: "lexTokens s = None \<or> lexTokens s = Some []" using Cons.IH s by simp
  have "lexTokens (c # s) = (if isWs c then lexTokens s else None)"
    by (simp add: trimSpace_not_token_start[OF c])
  then show ?case using ih by auto
qed

lemma JSON_parse_blank: "list_all isTrimSpace s \<Longrightarrow> JSON_parse s = None"
  using lex_blank[of s] by (auto simp: JSON_parse_def parseTokens_def)

subsection \<open>The parser reads back the tokens of a value\<close>

lemma prun_append:
  "prun c (ts @ us) = (case prun c ts of None \<Rightarrow> None | Some c' \<Rightarrow> prun c' us)"
  by (induction ts arbitrary: c) (auto split: option.splits)

lemma pstep_value_start:
  "s = ExpValue \<or> s = ExpValueOrEnd \<Longrightarrow> t \<noteq> TRBrack \<Longrightarrow> pstep t (s, st) = openValue t st"
  by auto

lemma parse_elements:
  assumes "\<forall>x\<in>set xs. \<forall>s st rest. (s = ExpValue \<or> s = ExpValueOrEnd) \<longrightarrow>
             prun (s, st) (tokensOf x @ rest) = prun (completeValue x st) rest"
      and "xs \<noteq> []" and "s = ExpValue \<or> s = ExpValueOrEnd"
  shows "prun (s, FArr acc # st) (sepToks (map tokensOf xs) @ TRBrack # rest)
         = prun (completeValue (JArr (rev acc @ xs)) st) rest"
  using assms
proof (induction xs arbitrary: acc s)
  case Nil then show ?case by simp
next
  case (Cons x xs)
  have x0: "\<forall>s st rest. (s = ExpValue \<or> s = ExpValueOrEnd) \<longrightarrow>
             prun (s, st) (tokensOf x @ rest) = prun (completeValue x st) rest"
    using Cons.prems(1) by (metis list.set_intros(1))
  have x: "prun (s, FArr acc # st) (tokensOf x @ r) = prun (AfterValue, FArr (x # acc) # st) r" for r
    using x0[rule_format, OF Cons.prems(3), of "FArr acc # st" r] by simp
  show ?case
  proof (cases xs)
    case Nil
    then show ?thesis using x[of "TRBrack # rest"] by simp
  next
    case (Cons y ys)
    have ih: "prun (ExpValue, FArr (x # acc) # st) (sepToks (map tokensOf xs) @ TRBrack # rest)
              = prun (completeValue (JArr (rev (x # acc) @ xs)) st) rest"
      using Cons.IH[of ExpValue "x # acc"] Cons.prems(1) Cons by simp
    have e: "sepToks (map tokensOf (x # xs)) @ TRBrack # rest
          = tokensOf x @ (TComma # sepToks (map tokensOf xs) @ TRBrack # rest)"
      using Cons by simp
    show ?thesis
      unfolding e using x[of "TComma # sepToks (map tokensOf xs) @ TRBrack # rest"] ih by simp
  qed
qed

lemma parse_members:
  assumes "\<forall>kv\<in>set kvs. \<forall>s st rest. (s = ExpValue \<or> s = ExpValueOrEnd) \<longrightarrow>
             prun (s, st) (tokensOf (snd kv) @ rest) = prun (completeValue (snd kv) st) rest"
      and "kvs \<noteq> []" and "s = ExpKeyOrEnd \<or> s = ExpKey"
  shows "prun (s, FObj acc k0 # st)
           (sepToks (map (\<lambda>kv. TStr (fst kv) # TColon # tokensOf (snd kv)) kvs) @ TRBrace # rest)
         = prun (completeValue (JObj (objAssign acc kvs)) st) rest"
  using assms
proof (induction kvs arbitrary: acc s k0)
  case Nil then show ?case by simp
next
  case (Cons kv kvs)
  let ?m = "\<lambda>kv. TStr (fst kv) # TColon # tokensOf (snd kv)"
  have kv: "prun (s, FObj acc k0 # st) (?m kv @ r)
            = prun (AfterValue, FObj (objSet (fst kv) (snd kv) acc) (fst kv) # st) r" for r
  proof -
    have "pstep (TStr (fst kv)) (s, FObj acc k0 # st) = Some (ExpColon, FObj acc (fst kv) # st)"
      using Cons.prems(3) by auto
    moreover have "\<forall>s st rest. (s = ExpValue \<or> s = ExpValueOrEnd) \<longrightarrow>
             prun (s, st) (tokensOf (snd kv) @ rest) = prun (completeValue (snd kv) st) rest"
      using Cons.prems(1) by (metis list.set_intros(1))
    then have "prun (ExpValue, FObj acc (fst kv) # st) (tokensOf (snd kv) @ r)
            = prun (completeValue (snd kv) (FObj acc (fst kv) # st)) r"
      by simp
    ultimately show ?thesis by simp
  qed
  have oa: "objAssign acc (kv # kvs) = objAssign (objSet (fst kv) (snd kv) acc) kvs"
    by (simp add: objAssign_def)
  show ?case
  proof (cases kvs)
    case Nil
    then show ?thesis using kv[of "TRBrace # rest"] by (simp add: objAssign_def)
  next
    case (Cons y ys)
    have ih: "prun (ExpKey, FObj (objSet (fst kv) (snd kv) acc) (fst kv) # st)
                (sepToks (map ?m kvs) @ TRBrace # rest)
              = prun (completeValue (JObj (objAssign (objSet (fst kv) (snd kv) acc) kvs)) st) rest"
      using Cons.IH[of ExpKey "objSet (fst kv) (snd kv) acc" "fst kv"] Cons.prems(1) Cons by simp
    have e: "sepToks (map ?m (kv # kvs)) @ TRBrace # rest
          = ?m kv @ (TComma # sepToks (map ?m kvs) @ TRBrace # rest)"
      using Cons by simp
    show ?thesis
      unfolding e oa using kv[of "TComma # sepToks (map ?m kvs) @ TRBrace # rest"] ih by simp
  qed
qed

lemma parse_value:
  "canonical v \<Longrightarrow> s = ExpValue \<or> s = ExpValueOrEnd \<Longrightarrow>
   prun (s, st) (tokensOf v @ rest) = prun (completeValue v st) rest"
proof (induction v arbitrary: s st rest rule: tokensOf.induct)
  case 1 then show ?case by auto
next
  case (2 b) then show ?case by auto
next
  case (3 r) then show ?case by auto
next
  case (4 t) then show ?case by auto
next
  case (5 xs)
  have ih: "\<forall>x\<in>set xs. \<forall>s st rest. (s = ExpValue \<or> s = ExpValueOrEnd) \<longrightarrow>
             prun (s, st) (tokensOf x @ rest) = prun (completeValue x st) rest"
    using "5.IH" "5.prems"(1) by (simp add: list_all_iff)
  have o: "pstep TLBrack (s, st) = Some (ExpValueOrEnd, FArr [] # st)"
    using "5.prems"(2) by auto
  show ?case
  proof (cases "xs = []")
    case True
    then show ?thesis using o by simp
  next
    case False
    have "prun (ExpValueOrEnd, FArr [] # st) (sepToks (map tokensOf xs) @ TRBrack # rest)
          = prun (completeValue (JArr (rev [] @ xs)) st) rest"
      using ih False by (rule parse_elements) simp
    then show ?thesis using o by simp
  qed
next
  case (6 kvs)
  have ih: "\<forall>kv\<in>set kvs. \<forall>s st rest. (s = ExpValue \<or> s = ExpValueOrEnd) \<longrightarrow>
             prun (s, st) (tokensOf (snd kv) @ rest) = prun (completeValue (snd kv) st) rest"
    using "6.IH" "6.prems"(1) by (simp add: list_all_iff)
  have c: "objAssign [] kvs = kvs" using "6.prems"(1) by simp
  have o: "pstep TLBrace (s, st) = Some (ExpKeyOrEnd, FObj [] [] # st)"
    using "6.prems"(2) by auto
  show ?case
  proof (cases "kvs = []")
    case True
    then show ?thesis using o by simp
  next
    case False
    have "prun (ExpKeyOrEnd, FObj [] [] # st)
            (sepToks (map (\<lambda>kv. TStr (fst kv) # TColon # tokensOf (snd kv)) kvs) @ TRBrace # rest)
          = prun (completeValue (JObj (objAssign [] kvs)) st) rest"
      using ih False by (rule parse_members) simp
    then show ?thesis using o c by simp
  qed
qed

lemma parseTokens_tokensOf: "canonical v \<Longrightarrow> parseTokens (tokensOf v) = Some v"
  using parse_value[of v ExpValue "[]" "[]"] by (simp add: parseTokens_def)

subsection \<open>The lexer reads back printed text\<close>

lemma lexTokens_spaces: "lexTokens (replicate n CHR '' '' @ t) = lexTokens t"
  by (induction n) (simp_all add: isWs_def)

lemma lexTokens_newline: "lexTokens (newline n @ t) = lexTokens t"
  by (simp add: newline_def isWs_def lexTokens_spaces)

lemma lexTokens_punctuation:
  "lexTokens (CHR ''['' # t) = map_option (Cons TLBrack) (lexTokens t)"
  "lexTokens (CHR '']'' # t) = map_option (Cons TRBrack) (lexTokens t)"
  "lexTokens (CHR ''{'' # t) = map_option (Cons TLBrace) (lexTokens t)"
  "lexTokens (CHR ''}'' # t) = map_option (Cons TRBrace) (lexTokens t)"
  "lexTokens (CHR '':'' # t) = map_option (Cons TColon) (lexTokens t)"
  "lexTokens (CHR '','' # t) = map_option (Cons TComma) (lexTokens t)"
  "lexTokens (CHR '' '' # t) = lexTokens t"
  by (simp_all add: isWs_def)

lemma lexTokens_literals:
  "lexTokens (''null'' @ t) = map_option (Cons TNull) (lexTokens t)"
  "lexTokens (''true'' @ t) = map_option (Cons TTrue) (lexTokens t)"
  "lexTokens (''false'' @ t) = map_option (Cons TFalse) (lexTokens t)"
  by (simp_all add: isWs_def isDigit_def)

lemma hexVal_hexChar: "0 \<le> d \<Longrightarrow> d < 16 \<Longrightarrow> hexVal (hexChar d) = Some d"
proof -
  assume d: "0 \<le> d" "d < 16"
  show ?thesis
  proof (cases "d < 10")
    case True
    have "(48 + d) mod 256 = 48 + d" using d by simp
    then show ?thesis using True d by (simp add: hexVal_def hexChar_def Let_def)
  next
    case False
    have "(87 + d) mod 256 = 87 + d" using d by simp
    then show ?thesis using False d by (simp add: hexVal_def hexChar_def Let_def)
  qed
qed

lemma lexString_escapeChar: "lexString (escapeChar c @ u) = consFst c (lexString u)"
proof (cases "c \<in> {CHR 0x22, CHR 0x5C, CHR 0x08, CHR 0x0C, CHR 0x0A, CHR 0x0D, CHR 0x09}")
  case True
  then show ?thesis by (auto simp: escapeChar_def unescape_def)
next
  case False
  show ?thesis
  proof (cases "(of_char c :: int) < 32")
    case True
    let ?n = "of_char c :: int"
    have n0: "0 \<le> ?n" by (metis of_nat_of_char of_nat_0_le_iff)
    have h1: "hexVal (hexChar (?n div 16)) = Some (?n div 16)"
      by (rule hexVal_hexChar) (use True n0 in auto)
    have h2: "hexVal (hexChar (?n mod 16)) = Some (?n mod 16)"
      by (rule hexVal_hexChar) auto
    have z: "hexVal CHR ''0'' = Some 0" by (simp add: hexVal_def)
    have e: "escapeChar c = [CHR 0x5C, CHR ''u'', CHR ''0'', CHR ''0'',
                             hexChar (?n div 16), hexChar (?n mod 16)]"
      using False True by (simp add: escapeChar_def)
    have "?n div 16 * 16 + ?n mod 16 = ?n" by simp
    then have r: "char_of (((0 * 16 + 0) * 16 + ?n div 16) * 16 + ?n mod 16) = c"
      by simp
    show ?thesis unfolding e using r by (simp add: z h1 h2)
  next
    case g: False
    then show ?thesis using False by (simp add: escapeChar_def)
  qed
qed

lemma lexString_quoted: "lexString (concat (map escapeChar s) @ CHR 0x22 # t) = Some (s, t)"
  by (induction s) (simp_all add: lexString_escapeChar consFst_def)

lemma lexTokens_quote: "lexTokens (quote s @ t) = map_option (Cons (TStr s)) (lexTokens t)"
  by (simp add: quote_def lexString_quoted isWs_def)

lemma digitChar_code: "0 \<le> d \<Longrightarrow> d < 10 \<Longrightarrow> (of_char (digitChar d) :: int) = 48 + d"
proof -
  assume d: "0 \<le> d" "d < 10"
  then have "(48 + d) mod 256 = 48 + d" by simp
  then show ?thesis by (simp add: digitChar_def)
qed

lemma digitChar_isDigit: "0 \<le> d \<Longrightarrow> d < 10 \<Longrightarrow> isDigit (digitChar d)"
  by (simp add: isDigit_def digitChar_code)

lemma digitsOf_small: "n < 10 \<Longrightarrow> digitsOf n = [digitChar n]"
  by (subst digitsOf.simps) simp

lemma digitsOf_large: "\<not> n < 10 \<Longrightarrow> digitsOf n = digitsOf (n div 10) @ [digitChar (n mod 10)]"
  by (subst digitsOf.simps) simp

lemma digitsOf_nonempty: "digitsOf n \<noteq> []"
  by (cases "n < 10") (simp_all add: digitsOf_small digitsOf_large)

lemma digitsOf_digits: "0 \<le> n \<Longrightarrow> list_all isDigit (digitsOf n)"
proof (induction n rule: digitsOf.induct)
  case (1 n)
  show ?case
  proof (cases "n < 10")
    case True
    then show ?thesis using "1.prems" by (simp add: digitsOf_small digitChar_isDigit)
  next
    case False
    then have "list_all isDigit (digitsOf (n div 10))" using "1.IH" "1.prems" by simp
    moreover have "isDigit (digitChar (n mod 10))" by (rule digitChar_isDigit) simp_all
    ultimately show ?thesis using False by (simp add: digitsOf_large)
  qed
qed

lemma digitsValue_snoc: "digitsValue (xs @ [c]) = 10 * digitsValue xs + (of_char c - 48)"
  by (simp add: digitsValue_def)

lemma digitsOf_value: "0 \<le> n \<Longrightarrow> digitsValue (digitsOf n) = n"
proof (induction n rule: digitsOf.induct)
  case (1 n)
  show ?case
  proof (cases "n < 10")
    case True
    then show ?thesis using "1.prems" by (simp add: digitsOf_small digitsValue_def digitChar_code)
  next
    case False
    then have "digitsValue (digitsOf (n div 10)) = n div 10" using "1.IH" "1.prems" by simp
    moreover have "(of_char (digitChar (n mod 10)) :: int) = 48 + n mod 10"
      by (rule digitChar_code) simp_all
    ultimately show ?thesis using False by (simp add: digitsOf_large digitsValue_snoc)
  qed
qed

lemma digitsOf_hd: "0 < n \<Longrightarrow> hd (digitsOf n) \<noteq> CHR ''0''"
proof (induction n rule: digitsOf.induct)
  case (1 n)
  show ?case
  proof (cases "n < 10")
    case True
    have "(of_char (digitChar n) :: int) = 48 + n" using True "1.prems" by (simp add: digitChar_code)
    then have "digitChar n \<noteq> CHR ''0''" using "1.prems" by auto
    then show ?thesis using True by (simp add: digitsOf_small)
  next
    case False
    then have "hd (digitsOf (n div 10)) \<noteq> CHR ''0''" using "1.IH" by simp
    then show ?thesis using False by (simp add: digitsOf_large digitsOf_nonempty)
  qed
qed

lemma digitsOf_no_leading_zero:
  "0 \<le> n \<Longrightarrow> \<not> (1 < length (digitsOf n) \<and> hd (digitsOf n) = CHR ''0'')"
proof (cases "n = 0")
  case True
  then show ?thesis by (simp add: digitsOf_small)
next
  case False
  assume "0 \<le> n"
  then have "0 < n" using False by simp
  then show ?thesis using digitsOf_hd by blast
qed

lemma isDigit_not_minus: "isDigit c \<Longrightarrow> c \<noteq> CHR ''-''"
  by (auto simp: isDigit_def)

lemma parseNumber_digits:
  assumes "0 \<le> n"
  shows "parseNumber (digitsOf n) = Some (of_int n)"
    and "parseNumber (CHR ''-'' # digitsOf n) = Some (- of_int n)"
proof -
  let ?ds = "digitsOf n"
  have a: "list_all isDigit ?ds" using assms by (rule digitsOf_digits)
  have tw: "takeWhile isDigit ?ds = ?ds" using a by (simp add: takeWhile_eq_all_conv list_all_iff)
  have dw: "dropWhile isDigit ?ds = []" using a by (simp add: dropWhile_eq_Nil_conv list_all_iff)
  have ne: "?ds \<noteq> []" by (rule digitsOf_nonempty)
  have "isDigit (hd ?ds)" using a ne by (cases ?ds) simp_all
  then have hm: "hd ?ds \<noteq> CHR ''-''" by (rule isDigit_not_minus)
  have lz: "\<not> (1 < length ?ds \<and> hd ?ds = CHR ''0'')"
    using assms by (rule digitsOf_no_leading_zero)
  have v: "digitsValue ?ds = n" using assms by (rule digitsOf_value)
  have z: "digitsValue [] = 0" by (simp add: digitsValue_def)
  show "parseNumber ?ds = Some (of_int n)"
    using ne hm lz a by (simp add: parseNumber_def Let_def tw dw v z list_all_iff)
  show "parseNumber (CHR ''-'' # ?ds) = Some (- of_int n)"
    using ne lz a by (simp add: parseNumber_def Let_def tw dw v z list_all_iff)
qed

lemma parseNumber_intToString: "parseNumber (intToString i) = Some (of_int i)"
proof (cases "i < 0")
  case True
  then show ?thesis using parseNumber_digits(2)[of "- i"] by (simp add: intToString_def)
next
  case False
  then show ?thesis using parseNumber_digits(1)[of i] by (simp add: intToString_def)
qed

lemma isDigit_token_start:
  assumes "isDigit c \<or> c = CHR ''-''"
  shows "\<not> isWs c" "c \<noteq> CHR ''{''" "c \<noteq> CHR ''}''" "c \<noteq> CHR ''[''" "c \<noteq> CHR '']''"
    "c \<noteq> CHR '':''" "c \<noteq> CHR '',''" "c \<noteq> CHR 0x22"
  using assms by (auto simp: isDigit_def isWs_def)

lemma intToString_shape:
  "\<exists>c cs. intToString i = c # cs \<and> (isDigit c \<or> c = CHR ''-'') \<and> list_all numChar cs"
proof (cases "i < 0")
  case True
  have "list_all isDigit (digitsOf (- i))" using True by (simp add: digitsOf_digits)
  then have "list_all numChar (digitsOf (- i))" by (simp add: list_all_iff numChar_def)
  then show ?thesis using True by (simp add: intToString_def)
next
  case False
  have a: "list_all isDigit (digitsOf i)" using False by (simp add: digitsOf_digits)
  then have n: "list_all numChar (digitsOf i)" by (simp add: list_all_iff numChar_def)
  obtain c cs where e: "digitsOf i = c # cs" using digitsOf_nonempty[of i] by (cases "digitsOf i") auto
  then show ?thesis using False a n by (simp add: intToString_def)
qed

lemma lexTokens_int:
  assumes "rest = [] \<or> \<not> numChar (hd rest)"
  shows "lexTokens (intToString i @ rest) = map_option (Cons (TNum (of_int i))) (lexTokens rest)"
proof -
  obtain c cs where e: "intToString i = c # cs" and c: "isDigit c \<or> c = CHR ''-''"
    and cs: "list_all numChar cs"
    using intToString_shape by blast
  have tw: "takeWhile numChar (cs @ rest) = cs"
    using cs assms by (cases rest) (simp_all add: list_all_iff takeWhile_append2)
  have dw: "dropWhile numChar (cs @ rest) = rest"
    using cs assms by (cases rest) (simp_all add: list_all_iff dropWhile_append2)
  have p: "parseNumber (c # cs) = Some (of_int i)"
    using parseNumber_intToString[of i] by (simp add: e)
  have "lexTokens (c # (cs @ rest)) = map_option (Cons (TNum (of_int i))) (lexTokens rest)"
    using c by (simp add: isDigit_token_start[OF c] tw dw p)
  then show ?thesis by (simp add: e)
qed

lemma isInteger_numToString:
  assumes "isInteger r"
  shows "numToString r = intToString (fst (quotient_of r))" and "r = of_int (fst (quotient_of r))"
proof -
  obtain n d where q: "quotient_of r = (n, d)" by (cases "quotient_of r")
  then have d: "d = 1" using assms by (simp add: isInteger_def)
  show "numToString r = intToString (fst (quotient_of r))"
    using q d by (simp add: numToString_def Let_def)
  have "r = of_int n / of_int d" using q by (rule quotient_of_div)
  then show "r = of_int (fst (quotient_of r))" using q d by simp
qed

lemma lexTokens_num:
  assumes "isInteger r" and "rest = [] \<or> \<not> numChar (hd rest)"
  shows "lexTokens (numToString r @ rest) = map_option (Cons (TNum r)) (lexTokens rest)"
  using lexTokens_int[OF assms(2), of "fst (quotient_of r)"] isInteger_numToString[OF assms(1)]
  by simp

lemma numChar_separators:
  "\<not> numChar CHR '',''" "\<not> numChar CHR 0x0A" "\<not> numChar CHR '']''" "\<not> numChar CHR ''}''"
  by (simp_all add: numChar_def isDigit_def)

lemma map_option_append_cons:
  "map_option ((@) a) (map_option (Cons t) (map_option ((@) b) X))
   = map_option ((@) (a @ t # b)) X"
  by (cases X) simp_all

lemma lex_joinWith:
  assumes "\<forall>x\<in>set xs. \<forall>rest. (rest = [] \<or> \<not> numChar (hd rest)) \<longrightarrow>
             lexTokens (f x @ rest) = map_option ((@) (g x)) (lexTokens rest)"
      and "xs \<noteq> []" and "t = [] \<or> \<not> numChar (hd t)"
  shows "lexTokens (joinWith (CHR '','' # newline k) (map f xs) @ t)
         = map_option ((@) (sepToks (map g xs))) (lexTokens t)"
  using assms(1,2)
proof (induction xs)
  case Nil then show ?case by simp
next
  case (Cons x xs)
  have x: "lexTokens (f x @ r) = map_option ((@) (g x)) (lexTokens r)"
    if "r = [] \<or> \<not> numChar (hd r)" for r
    using Cons.prems(1) that by (metis list.set_intros(1))
  show ?case
  proof (cases xs)
    case Nil
    then show ?thesis using x[OF assms(3)] by simp
  next
    case (Cons y ys)
    let ?J = "joinWith (CHR '','' # newline k) (map f xs)"
    have ih: "lexTokens (?J @ t) = map_option ((@) (sepToks (map g xs))) (lexTokens t)"
      using Cons.IH Cons.prems(1) Cons by simp
    have e: "joinWith (CHR '','' # newline k) (map f (x # xs)) @ t
             = f x @ (CHR '','' # newline k @ ?J @ t)"
      using Cons by simp
    have "lexTokens (f x @ (CHR '','' # newline k @ ?J @ t))
          = map_option ((@) (g x)) (lexTokens (CHR '','' # newline k @ ?J @ t))"
      by (rule x) (simp add: numChar_separators)
    also have "lexTokens (CHR '','' # newline k @ ?J @ t)
          = map_option (Cons TComma) (lexTokens (?J @ t))"
      by (simp only: lexTokens_punctuation lexTokens_newline)
    finally have "lexTokens (f x @ (CHR '','' # newline k @ ?J @ t))
          = map_option ((@) (g x @ TComma # sepToks (map g xs))) (lexTokens t)"
      by (simp only: ih map_option_append_cons)
    note F = this
    have s: "sepToks (map g (x # xs)) = g x @ TComma # sepToks (map g xs)"
      using Cons by simp
    show ?thesis unfolding e s by (rule F)
  qed
qed

lemma lex_stringifyAt:
  "canonical v \<Longrightarrow> rest = [] \<or> \<not> numChar (hd rest) \<Longrightarrow>
   lexTokens (stringifyAt ind v @ rest) = map_option ((@) (tokensOf v)) (lexTokens rest)"
proof (induction v arbitrary: ind rest rule: tokensOf.induct)
  case 1
  then show ?case using lexTokens_literals(1)[of rest] by (simp add: option.map_ident cong: option.map_cong)
next
  case (2 b)
  then show ?case using lexTokens_literals(2,3)[of rest] by (cases b) simp_all
next
  case (3 r)
  then show ?case using lexTokens_num[of r rest] by simp
next
  case (4 s)
  then show ?case using lexTokens_quote[of s rest] by simp
next
  case (5 xs)
  show ?case
  proof (cases "xs = []")
    case True
    then show ?thesis by (simp add: isWs_def option.map_comp comp_def)
  next
    case False
    let ?t = "newline ind @ CHR '']'' # rest"
    have ok: "?t = [] \<or> \<not> numChar (hd ?t)" by (simp add: newline_def numChar_separators)
    have ih: "\<forall>x\<in>set xs. \<forall>rest. (rest = [] \<or> \<not> numChar (hd rest)) \<longrightarrow>
             lexTokens (stringifyAt (ind + 2) x @ rest)
               = map_option ((@) (tokensOf x)) (lexTokens rest)"
      using "5.IH" "5.prems"(1) by (simp add: list_all_iff)
    have j: "lexTokens (joinWith (CHR '','' # newline (ind + 2)) (map (stringifyAt (ind + 2)) xs) @ ?t)
             = map_option ((@) (sepToks (map tokensOf xs))) (lexTokens ?t)"
      using ih False ok by (rule lex_joinWith)
    have c: "lexTokens ?t = map_option (Cons TRBrack) (lexTokens rest)"
      by (simp only: lexTokens_newline lexTokens_punctuation)
    have "stringifyAt ind (JArr xs) @ rest
          = CHR ''['' # newline (ind + 2)
            @ (joinWith (CHR '','' # newline (ind + 2)) (map (stringifyAt (ind + 2)) xs) @ ?t)"
      using False by simp
    then have "lexTokens (stringifyAt ind (JArr xs) @ rest)
          = map_option (Cons TLBrack)
              (map_option ((@) (sepToks (map tokensOf xs)))
                 (map_option (Cons TRBrack) (lexTokens rest)))"
      by (simp only: lexTokens_punctuation lexTokens_newline j c)
    then show ?thesis by (cases "lexTokens rest") simp_all
  qed
next
  case (6 kvs)
  show ?case
  proof (cases "kvs = []")
    case True
    then show ?thesis by (simp add: isWs_def option.map_comp comp_def)
  next
    case False
    let ?t = "newline ind @ CHR ''}'' # rest"
    let ?f = "\<lambda>kv. quote (fst kv) @ '': '' @ stringifyAt (ind + 2) (snd kv)"
    let ?g = "\<lambda>kv. TStr (fst kv) # TColon # tokensOf (snd kv)"
    have ok: "?t = [] \<or> \<not> numChar (hd ?t)" by (simp add: newline_def numChar_separators)
    have ih: "\<forall>kv\<in>set kvs. \<forall>rest. (rest = [] \<or> \<not> numChar (hd rest)) \<longrightarrow>
             lexTokens (?f kv @ rest) = map_option ((@) (?g kv)) (lexTokens rest)"
    proof (intro ballI allI impI)
      fix kv r assume kv: "kv \<in> set kvs" and r: "r = [] \<or> \<not> numChar (hd r)"
      have "canonical (snd kv)" using "6.prems"(1) kv by (simp add: list_all_iff)
      then have "lexTokens (stringifyAt (ind + 2) (snd kv) @ r)
                 = map_option ((@) (tokensOf (snd kv))) (lexTokens r)"
        using "6.IH" kv r by simp
      then have "lexTokens (quote (fst kv) @ (CHR '':'' # CHR '' '' # stringifyAt (ind + 2) (snd kv) @ r))
                 = map_option (Cons (TStr (fst kv)))
                     (map_option (Cons TColon) (map_option ((@) (tokensOf (snd kv))) (lexTokens r)))"
        by (simp only: lexTokens_quote lexTokens_punctuation)
      then show "lexTokens (?f kv @ r) = map_option ((@) (?g kv)) (lexTokens r)"
        by (cases "lexTokens r") simp_all
    qed
    have j: "lexTokens (joinWith (CHR '','' # newline (ind + 2)) (map ?f kvs) @ ?t)
             = map_option ((@) (sepToks (map ?g kvs))) (lexTokens ?t)"
      using ih False ok by (rule lex_joinWith)
    have c: "lexTokens ?t = map_option (Cons TRBrace) (lexTokens rest)"
      by (simp only: lexTokens_newline lexTokens_punctuation)
    have "stringifyAt ind (JObj kvs) @ rest
          = CHR ''{'' # newline (ind + 2)
            @ (joinWith (CHR '','' # newline (ind + 2)) (map ?f kvs) @ ?t)"
      using False by simp
    then have "lexTokens (stringifyAt ind (JObj kvs) @ rest)
          = map_option (Cons TLBrace)
              (map_option ((@) (sepToks (map ?g kvs)))
                 (map_option (Cons TRBrace) (lexTokens rest)))"
      by (simp only: lexTokens_punctuation lexTokens_newline j c)
    then show ?thesis by (cases "lexTokens rest") simp_all
  qed
qed

subsection \<open>Parsing a printed value; exported documents are canonical\<close>

lemma JSON_parse_stringify: "canonical v \<Longrightarrow> JSON_parse (JSON_stringify v) = Some v"
  using lex_stringifyAt[of v "[]" 0] parseTokens_tokensOf[of v]
  by (simp add: JSON_parse_def JSON_stringify_def)

lemma objAssign_fresh:
  "list_all (\<lambda>kv. \<not> isArrayIndex (fst kv)) kvs \<Longrightarrow> distinct (map fst acc @ map fst kvs)
   \<Longrightarrow> objAssign acc kvs = acc @ kvs"
proof (induction kvs arbitrary: acc)
  case Nil then show ?case by (simp add: objAssign_def)
next
  case (Cons kv kvs)
  have s: "objSet (fst kv) (snd kv) acc = acc @ [kv]"
    using Cons.prems by (auto simp: objSet_def)
  have "objAssign acc (kv # kvs) = objAssign (acc @ [kv]) kvs"
    by (simp add: objAssign_def s)
  also have "\<dots> = (acc @ [kv]) @ kvs"
    using Cons.prems by (intro Cons.IH) auto
  finally show ?case by simp
qed

lemma not_index_keys:
  "\<not> isArrayIndex ''id''" "\<not> isArrayIndex ''text''" "\<not> isArrayIndex ''subItems''"
  "\<not> isArrayIndex ''epic''" "\<not> isArrayIndex ''domain''" "\<not> isArrayIndex ''requiredPoints''"
  "\<not> isArrayIndex ''optionalPoints''" "\<not> isArrayIndex ''name''" "\<not> isArrayIndex ''multiplier''"
  "\<not> isArrayIndex ''sprints''" "\<not> isArrayIndex ''velocity''" "\<not> isArrayIndex ''items''"
  "\<not> isArrayIndex (groupName g)"
  by (cases g; simp add: isArrayIndex_def isDigit_def)+

lemma canonical_encodeSubItem: "canonical (encodeSubItem s)"
  by (simp add: encodeSubItem_def objAssign_fresh not_index_keys)

lemma canonical_encodeSprint: "isInteger (multiplier s) \<Longrightarrow> canonical (encodeSprint s)"
  by (simp add: encodeSprint_def objAssign_fresh not_index_keys)

lemma pointsOk_canonical: "pointsOk (Some v) \<Longrightarrow> canonical v"
  by (cases v) (simp_all add: pointsOk_def)

lemma canonical_encodeItem:
  assumes "pointsOk (requiredPoints i)" "pointsOk (optionalPoints i)"
  shows "canonical (encodeItem i)"
proof -
  let ?kvs = "[(''id'', JStr (item_id i)), (''text'', JStr (item_text i)),
            (''subItems'', JArr (map encodeSubItem (subItems i)))]
           @ optField ''epic'' (map_option JStr (epic i))
           @ optField ''domain'' (map_option JStr (domain i))
           @ optField ''requiredPoints'' (requiredPoints i)
           @ optField ''optionalPoints'' (optionalPoints i)"
  have k: "list_all (\<lambda>kv. \<not> isArrayIndex (fst kv)) ?kvs"
    by (simp add: optField_def not_index_keys split: option.splits)
  have d: "distinct (map fst [] @ map fst ?kvs)"
    by (simp add: optField_def split: option.splits)
  have a: "objAssign [] ?kvs = ?kvs" using objAssign_fresh[OF k d] by simp
  have v: "list_all (\<lambda>kv. canonical (snd kv)) ?kvs"
    using assms pointsOk_canonical
    by (auto simp: optField_def list_all_iff canonical_encodeSubItem split: option.splits)
  show ?thesis unfolding encodeItem_def using a v by simp
qed

lemma canonical_encodeItems:
  assumes "\<forall>g. \<forall>i\<in>set (its g). pointsOk (requiredPoints i) \<and> pointsOk (optionalPoints i)"
  shows "canonical (encodeItems its)"
proof -
  let ?kvs = "map (\<lambda>g. (groupName g, JArr (map encodeItem (its g)))) allGroups"
  have k: "list_all (\<lambda>kv. \<not> isArrayIndex (fst kv)) ?kvs"
    by (simp add: list_all_iff not_index_keys)
  have d: "distinct (map fst [] @ map fst ?kvs)" by (simp add: allGroups_def)
  have a: "objAssign [] ?kvs = ?kvs" using objAssign_fresh[OF k d] by simp
  have v: "list_all (\<lambda>kv. canonical (snd kv)) ?kvs"
    using assms by (auto simp: list_all_iff canonical_encodeItem)
  show ?thesis unfolding encodeItems_def using a v by simp
qed

lemma canonical_encodeDoc: "validDocument d \<Longrightarrow> canonical (encodeDoc d)"
proof -
  assume v: "validDocument d"
  have g: "\<forall>g. \<forall>i\<in>set (items d g). pointsOk (requiredPoints i) \<and> pointsOk (optionalPoints i)"
    using v UNIV_GroupId by (auto simp: validDocument_def list_all_iff)
  have s: "list_all canonical (map encodeSprint (sprints d))"
    using v by (simp add: validDocument_def list_all_iff canonical_encodeSprint)
  have i: "canonical (encodeItems (items d))" using g by (rule canonical_encodeItems)
  have n: "isInteger (velocity d)" using v by (simp add: validDocument_def)
  show ?thesis
    using s i n by (simp add: encodeDoc_def objAssign_fresh not_index_keys)
qed

subsection \<open>Merging an exported document over the defaults\<close>

lemma same_keys_eq:
  "map fst xs = map fst ys \<Longrightarrow> distinct (map fst xs) \<Longrightarrow> (\<forall>k. map_of xs k = map_of ys k)
   \<Longrightarrow> xs = ys"
proof (induction xs arbitrary: ys)
  case Nil then show ?case by simp
next
  case (Cons x xs)
  obtain y ys' where ys: "ys = y # ys'" using Cons.prems(1) by (cases ys) auto
  have k: "fst x = fst y" and ks: "map fst xs = map fst ys'" using Cons.prems(1) ys by auto
  have "map_of (x # xs) (fst x) = map_of (y # ys') (fst x)" using Cons.prems(3) ys by blast
  then have v: "snd x = snd y" using k by simp
  have xy: "x = y" using k v by (simp add: prod_eq_iff)
  have nx: "fst x \<notin> fst ` set xs" using Cons.prems(2) by simp
  have "map_of xs k' = map_of ys' k'" for k'
  proof (cases "k' = fst x")
    case True
    have "map_of xs k' = None" using nx True by (simp add: map_of_eq_None_iff)
    moreover have "fst x \<notin> fst ` set ys'" using nx ks by (metis set_map)
    then have "map_of ys' k' = None" using True by (simp add: map_of_eq_None_iff)
    ultimately show ?thesis by simp
  next
    case False
    have "map_of (x # xs) k' = map_of (y # ys') k'" using Cons.prems(3) ys by blast
    then show ?thesis using False k by (cases x; cases y) simp
  qed
  then have "xs = ys'" using Cons.IH[OF ks] Cons.prems(2) by simp
  then show ?case using xy ys by simp
qed

lemma keys_objSet_existing:
  "k \<in> fst ` set kvs \<Longrightarrow> map fst (objSet k v kvs) = map fst kvs"
  by (simp add: objSet_def map_fst_setOwn del: map_map)

lemma keys_objAssign_existing:
  "fst ` set kvs \<subseteq> fst ` set acc \<Longrightarrow> map fst (objAssign acc kvs) = map fst acc"
proof (induction kvs arbitrary: acc)
  case Nil then show ?case by (simp add: objAssign_def)
next
  case (Cons kv kvs)
  have m: "map fst (objSet (fst kv) (snd kv) acc) = map fst acc"
    using Cons.prems by (intro keys_objSet_existing) auto
  then have "fst ` set (objSet (fst kv) (snd kv) acc) = fst ` set acc" by (metis set_map)
  then have "map fst (objAssign (objSet (fst kv) (snd kv) acc) kvs)
             = map fst (objSet (fst kv) (snd kv) acc)"
    using Cons.prems by (intro Cons.IH) auto
  then show ?case using m by (simp add: objAssign_def)
qed

lemma objAssign_same_keys:
  assumes "distinct (map fst acc)" "map fst kvs = map fst acc"
  shows "objAssign acc kvs = kvs"
proof -
  have s: "fst ` set kvs \<subseteq> fst ` set acc" using assms(2) by (metis set_map subset_refl)
  have k: "map fst (objAssign acc kvs) = map fst kvs"
    using keys_objAssign_existing[OF s] assms(2) by simp
  have d: "distinct (map fst (objAssign acc kvs))" using k assms by simp
  have dk: "distinct (map fst kvs)" using assms by simp
  have "map_of (objAssign acc kvs) k' = map_of kvs k'" for k'
  proof (cases "map_of kvs k'")
    case None
    then have "k' \<notin> fst ` set kvs" by (simp add: map_of_eq_None_iff)
    then have "k' \<notin> fst ` set acc" using assms(2) by (metis set_map)
    then have "map_of acc k' = None" by (simp add: map_of_eq_None_iff)
    then show ?thesis using None
      by (simp add: map_of_objAssign map_of_rev_distinct[OF dk])
  next
    case (Some v)
    then show ?thesis by (simp add: map_of_objAssign map_of_rev_distinct[OF dk])
  qed
  then show ?thesis using same_keys_eq[OF k d] by blast
qed

lemma spread_encodeDoc:
  "spread (encodeDoc d) = [(''sprints'', JArr (map encodeSprint (sprints d))),
           (''velocity'', JNum (velocity d)), (''items'', encodeItems (items d))]"
  by (simp add: encodeDoc_def spread_JObj)

lemma spread_encodeItems:
  "spread (encodeItems its) = map (\<lambda>g. (groupName g, JArr (map encodeItem (its g)))) allGroups"
  by (simp add: encodeItems_def spread_JObj)

lemma distinct_groupNames: "distinct (map groupName allGroups)"
  by (simp add: allGroups_def)

lemma mergeWithDefaults_encodeDoc: "mergeWithDefaults (encodeDoc d) = Inr (encodeDoc d)"
proof -
  have r: "readItems (encodeDoc d) = Inr (Some (encodeItems (items d)))"
    by (simp add: readItems_def ownProperty_def encodeDoc_def spread_JObj)
  have f1: "objAssign [] (spread (encodeItems (items DEFAULT_DATA)))
            = spread (encodeItems (items DEFAULT_DATA))"
    using objAssign_fresh[of "spread (encodeItems (items DEFAULT_DATA))" "[]"]
    by (simp add: spread_encodeItems list_all_iff not_index_keys distinct_groupNames comp_def)
  have i: "objAssign (objAssign [] (spread (encodeItems (items DEFAULT_DATA))))
             (spread (encodeItems (items d))) = spread (encodeItems (items d))"
    unfolding f1
    by (rule objAssign_same_keys) (simp_all add: spread_encodeItems comp_def distinct_groupNames)
  have f2: "objAssign [] (spread (encodeDoc DEFAULT_DATA)) = spread (encodeDoc DEFAULT_DATA)"
    using objAssign_fresh[of "spread (encodeDoc DEFAULT_DATA)" "[]"]
    by (simp add: spread_encodeDoc not_index_keys)
  have t: "objAssign (objAssign [] (spread (encodeDoc DEFAULT_DATA))) (spread (encodeDoc d))
           = spread (encodeDoc d)"
    unfolding f2 by (rule objAssign_same_keys) (simp_all add: spread_encodeDoc)
  have j: "JObj (spread (encodeItems (items d))) = encodeItems (items d)"
    by (simp add: encodeItems_def spread_JObj)
  have o: "objSet ''items'' (encodeItems (items d)) (spread (encodeDoc d)) = spread (encodeDoc d)"
    by (simp add: spread_encodeDoc objSet_def setOwn_def)
  have e: "JObj (spread (encodeDoc d)) = encodeDoc d"
    by (simp add: encodeDoc_def spread_JObj)
  show ?thesis
    unfolding mergeWithDefaults_def r by (simp add: i t j o e)
qed

subsection \<open>Reading an exported document back\<close>

lemma decodeSubItem_encodeSubItem: "decodeSubItem (encodeSubItem s) = s"
  by (simp add: decodeSubItem_def encodeSubItem_def strProp_def ownProperty_def spread_JObj)

lemma decodeSprint_encodeSprint: "decodeSprint (encodeSprint s) = s"
  by (simp add: decodeSprint_def encodeSprint_def strProp_def numProp_def ownProperty_def
        spread_JObj)

lemma map_of_optField: "map_of (optField k v) k' = (if k' = k then v else None)"
  by (simp add: optField_def split: option.splits)

lemma encodeItem_properties:
  "ownProperty (encodeItem i) ''id'' = Some (JStr (item_id i))"
  "ownProperty (encodeItem i) ''text'' = Some (JStr (item_text i))"
  "ownProperty (encodeItem i) ''subItems'' = Some (JArr (map encodeSubItem (subItems i)))"
  "ownProperty (encodeItem i) ''epic'' = map_option JStr (epic i)"
  "ownProperty (encodeItem i) ''domain'' = map_option JStr (domain i)"
  "ownProperty (encodeItem i) ''requiredPoints'' = requiredPoints i"
  "ownProperty (encodeItem i) ''optionalPoints'' = optionalPoints i"
proof -
  let ?kvs = "[(''id'', JStr (item_id i)), (''text'', JStr (item_text i)),
            (''subItems'', JArr (map encodeSubItem (subItems i)))]
           @ optField ''epic'' (map_option JStr (epic i))
           @ optField ''domain'' (map_option JStr (domain i))
           @ optField ''requiredPoints'' (requiredPoints i)
           @ optField ''optionalPoints'' (optionalPoints i)"
  have d: "distinct (map fst ?kvs)"
    by (simp add: optField_def split: option.splits)
  have p: "ownProperty (encodeItem i) k = map_of ?kvs k" for k
    unfolding encodeItem_def by (rule ownProperty_JObj_distinct[OF d])
  show "ownProperty (encodeItem i) ''id'' = Some (JStr (item_id i))"
    "ownProperty (encodeItem i) ''text'' = Some (JStr (item_text i))"
    "ownProperty (encodeItem i) ''subItems'' = Some (JArr (map encodeSubItem (subItems i)))"
    "ownProperty (encodeItem i) ''epic'' = map_option JStr (epic i)"
    "ownProperty (encodeItem i) ''domain'' = map_option JStr (domain i)"
    "ownProperty (encodeItem i) ''requiredPoints'' = requiredPoints i"
    "ownProperty (encodeItem i) ''optionalPoints'' = optionalPoints i"
    unfolding p
    by (simp_all add: map_add_def map_of_optField split: option.splits)
qed

lemma decodeItem_encodeItem: "decodeItem (encodeItem i) = i"
proof -
  have e: "optStrProp (encodeItem i) ''epic'' = epic i"
    by (cases "epic i") (simp_all add: optStrProp_def encodeItem_properties)
  have d: "optStrProp (encodeItem i) ''domain'' = domain i"
    by (cases "domain i") (simp_all add: optStrProp_def encodeItem_properties)
  have s: "map decodeSubItem (arrProp (encodeItem i) ''subItems'') = subItems i"
    by (simp add: arrProp_def encodeItem_properties decodeSubItem_encodeSubItem comp_def)
  show ?thesis
    by (simp add: decodeItem_def e d s strProp_def encodeItem_properties)
qed

lemma decodeDoc_encodeDoc: "decodeDoc (encodeDoc d) = d"
proof -
  have i: "ownProperty (encodeDoc d) ''items'' = Some (encodeItems (items d))"
    by (simp add: encodeDoc_def ownProperty_def spread_JObj)
  have a: "arrProp (encodeItems (items d)) (groupName g) = map encodeItem (items d g)" for g
    by (cases g) (simp_all add: encodeItems_def allGroups_def ownProperty_def spread_JObj arrProp_def)
  have "map decodeItem (case ownProperty (encodeDoc d) ''items'' of
                    None \<Rightarrow> [] | Some iv \<Rightarrow> arrProp iv (groupName g)) = items d g" for g
    by (simp add: i a decodeItem_encodeItem comp_def)
  then have "(\<lambda>g. map decodeItem (case ownProperty (encodeDoc d) ''items'' of
                    None \<Rightarrow> [] | Some iv \<Rightarrow> arrProp iv (groupName g))) = items d"
    by (rule ext)
  moreover have "map decodeSprint (arrProp (encodeDoc d) ''sprints'') = sprints d"
    by (simp add: encodeDoc_def arrProp_def ownProperty_def spread_JObj
          decodeSprint_encodeSprint comp_def)
  moreover have "numProp (encodeDoc d) ''velocity'' = velocity d"
    by (simp add: encodeDoc_def numProp_def ownProperty_def spread_JObj)
  ultimately show ?thesis by (simp add: decodeDoc_def)
qed


section \<open>The claims\<close>

text \<open>
  Claim C10 (frame property). Every item-level mutation (adding, updating, deleting,
  duplicating and reordering an item, and every resolution of a drag end) returns a document
  with the sprints and the velocity of the document it was given: only the items can differ.
\<close>

theorem item_mutations_keep_sprints_and_velocity:
  "sprints (handleAddItem ids g d) = sprints d \<and> velocity (handleAddItem ids g d) = velocity d
   \<and> sprints (handleUpdateItem g i u d) = sprints d
   \<and> velocity (handleUpdateItem g i u d) = velocity d
   \<and> sprints (handleDeleteItem g i d) = sprints d
   \<and> velocity (handleDeleteItem g i d) = velocity d
   \<and> sprints (handleDuplicateItem ids g it d) = sprints d
   \<and> velocity (handleDuplicateItem ids g it d) = velocity d
   \<and> sprints (handleReorderItem g i dir d) = sprints d
   \<and> velocity (handleReorderItem g i dir d) = velocity d
   \<and> sprints (handleDragEnd ev d) = sprints d
   \<and> velocity (handleDragEnd ev d) = velocity d"
  by (simp add: handleAddItem_def handleUpdateItem_def handleDeleteItem_def
        handleDuplicateItem_def handleReorderItem_def handleDragEnd_def Let_def
      split: option.split)

text \<open>
  Claim C7 (reorderItem). The handler looks for the first item of the group with the given id.
  If there is none, the document is returned as it is; so it is when that item is the first
  one and the direction is up, or the last one and the direction is down. Otherwise the item
  and its neighbour in that direction change places, and nothing else changes.
\<close>

theorem handleReorderItem_swaps_or_keeps:
  "((\<forall>x\<in>set (items d g). item_id x \<noteq> i) \<longrightarrow> handleReorderItem g i dir d = d)
   \<and> (items d g = x # xs \<and> item_id x = i \<longrightarrow> handleReorderItem g i Up d = d)
   \<and> (items d g = ys @ [x] \<and> item_id x = i \<and> (\<forall>y\<in>set ys. item_id y \<noteq> i)
        \<longrightarrow> handleReorderItem g i Down d = d)
   \<and> (items d g = ys @ [a, b] @ zs \<and> item_id b = i \<and> item_id a \<noteq> i
          \<and> (\<forall>y\<in>set ys. item_id y \<noteq> i)
        \<longrightarrow> handleReorderItem g i Up d = d\<lparr>items := (items d)(g := ys @ [b, a] @ zs)\<rparr>)
   \<and> (items d g = ys @ [a, b] @ zs \<and> item_id a = i \<and> (\<forall>y\<in>set ys. item_id y \<noteq> i)
        \<longrightarrow> handleReorderItem g i Down d = d\<lparr>items := (items d)(g := ys @ [b, a] @ zs)\<rparr>)"
  using reorder_notfound[of d g i dir] reorder_first_up[of d g x xs i]
    reorder_last_down[of d g ys x i] reorder_up[of d g ys a b zs i]
    reorder_down[of d g ys a b zs i]
  by blast

theorem handleReorderItem_swaps_or_keeps_witness:
  "map item_id (items (handleReorderItem Committed ''c1'' Up exampleDoc) Committed)
     = [''c1'', ''c0'', ''c2'', ''c3'']
   \<and> handleReorderItem Committed ''c1'' Up exampleDoc
     = exampleDoc\<lparr>items := (items exampleDoc)
         (Committed := [] @ [mkItem ''c1'' None (Some (JNum 20)) (Some (JNum 5)),
                             mkItem ''c0'' (Some ''api'') (Some (JNum 10)) None]
                          @ [mkItem ''c2'' (Some ''ui'') (Some (JStr '''')) None,
                             mkItem ''c3'' (Some ''api'') (Some (JStr ''5'')) (Some (JStr ''3''))])\<rparr>"
  using handleReorderItem_swaps_or_keeps[of exampleDoc Committed "''c1''" Up
      "mkItem ''c0'' (Some ''api'') (Some (JNum 10)) None" "[]" "[]"
      "mkItem ''c0'' (Some ''api'') (Some (JNum 10)) None"
      "mkItem ''c1'' None (Some (JNum 20)) (Some (JNum 5))"
      "[mkItem ''c2'' (Some ''ui'') (Some (JStr '''')) None,
        mkItem ''c3'' (Some ''api'') (Some (JStr ''5'')) (Some (JStr ''3''))]"]
  by (simp add: exampleDoc_def mkItem_def)



text \<open>
  Claim C9 (values that are not numbers count as 0). A point value that is not a number, such
  as the empty string a new item carries or the string "5", counts as 0 in every statistic:
  replacing any such values by absence changes neither the group statistics nor the
  committed percentage, the remaining capacity or the domain breakdown.
\<close>

theorem statistics_ignore_values_that_are_not_numbers:
  "calcStats (eraseDoc sel d) g = calcStats d g
   \<and> committedPercent (eraseDoc sel d) = committedPercent d
   \<and> committedRemaining (eraseDoc sel d) = committedRemaining d
   \<and> domainBreakdown (eraseDoc sel d) = domainBreakdown d
   \<and> (\<not> isNumber v \<longrightarrow> numberOr0 v = 0)"
proof -
  have t: "totalPlanningPoints (eraseDoc sel d) = totalPlanningPoints d"
    by (simp add: totalPlanningPoints_def eraseDoc_def)
  have n: "\<not> isNumber v \<longrightarrow> numberOr0 v = 0"
    by (auto simp: isNumber_def numberOr0_def split: option.splits json.splits)
  show ?thesis
    by (simp add: committedPercent_def committedRemaining_def t calcStats_erase
          domainBreakdown_erase n)
qed

theorem statistics_ignore_values_that_are_not_numbers_witness:
  "map requiredPoints (items (eraseDoc (\<lambda>g k. (True, True)) exampleDoc) Committed)
     = [Some (JNum 10), Some (JNum 20), None, None]
   \<and> map optionalPoints (items (eraseDoc (\<lambda>g k. (True, True)) exampleDoc) Committed)
     = [None, Some (JNum 5), None, None]
   \<and> calcStats (eraseDoc (\<lambda>g k. (True, True)) exampleDoc) Committed
     = calcStats exampleDoc Committed
   \<and> domainBreakdown (eraseDoc (\<lambda>g k. (True, True)) exampleDoc) = domainBreakdown exampleDoc
   \<and> \<not> isNumber (Some (JStr ''5'')) \<and> numberOr0 (Some (JStr ''5'')) = 0
   \<and> \<not> isNumber (Some (JStr '''')) \<and> numberOr0 (Some (JStr '''')) = 0"
  using statistics_ignore_values_that_are_not_numbers[of "\<lambda>g k. (True, True)" exampleDoc
          Committed "Some (JStr ''5'')"]
        statistics_ignore_values_that_are_not_numbers[of "\<lambda>g k. (True, True)" exampleDoc
          Committed "Some (JStr '''')"]
  by (simp add: eraseDoc_def exampleDoc_def mkItem_def eraseItem_def erasePoints_def isNumber_def
        enumerate_eq_zip upt_rec)

text \<open>
  Claim C2 (move invariant). Let the ids of the items of a document be unique across all
  groups, and let a drag end relocate an item of its source group to another group: by a drop
  on that group's zone, or by a drop on an item of that group. Then the moved item is in the
  target group and its id occurs in no other group, the ids are still unique, the union of the
  groups' id sets is what it was, and so is the collection of all items.
\<close>

theorem cross_group_move_invariant:
  assumes "uniqueIds d"
      and "drag_item (active_data ev) \<in> set (items d (groupId (active_data ev)))"
      and "over ev = Some ov" and "active_id ev \<noteq> over_id ov"
      and "groupOfName (over_id ov) = Some dst
           \<or> (groupOfName (over_id ov) = None \<and> over_data ov = Some od \<and> groupId od = dst)"
      and "dst \<noteq> groupId (active_data ev)"
  shows "drag_item (active_data ev) \<in> set (items (handleDragEnd ev d) dst)
       \<and> (\<forall>g. item_id (drag_item (active_data ev)) \<in> item_id ` set (items (handleDragEnd ev d) g)
               \<longrightarrow> g = dst)
       \<and> uniqueIds (handleDragEnd ev d)
       \<and> (\<Union>g. item_id ` set (items (handleDragEnd ev d) g)) = (\<Union>g. item_id ` set (items d g))
       \<and> mset (allItems (handleDragEnd ev d)) = mset (allItems d)"
proof -
  let ?it = "drag_item (active_data ev)"
  let ?src = "groupId (active_data ev)"
  let ?d' = "handleDragEnd ev d"
  obtain b where b: "mset b = add_mset ?it (mset (items d dst))"
    and d': "?d' = d\<lparr>items := (items d)
       (?src := filter (\<lambda>i. item_id i \<noteq> item_id ?it) (items d ?src), dst := b)\<rparr>"
    using handleDragEnd_cross[OF assms(3,4,5,6)] by blast
  have m: "mset (allItems ?d') = mset (allItems d)"
    unfolding d' using assms(6)[symmetric] assms(2) uniqueIds_group[OF assms(1)] b
    by (rule mset_allItems_move)
  have u: "uniqueIds ?d'" using uniqueIds_mset[OF m] assms(1) by simp
  have "?it \<in># mset b" using b by simp
  then have i: "?it \<in> set (items ?d' dst)" by (simp add: d')
  have o: "g = dst" if "item_id ?it \<in> item_id ` set (items ?d' g)" for g
  proof -
    from that obtain y where "y \<in> set (items ?d' g)" "item_id ?it = item_id y" by auto
    with u i show ?thesis by (metis uniqueIds_same_group)
  qed
  have "set (allItems ?d') = set (allItems d)" using m by (metis set_mset_mset)
  then have "(\<Union>g. set (items ?d' g)) = (\<Union>g. set (items d g))"
    by (simp only: set_allItems)
  then have s: "(\<Union>g. item_id ` set (items ?d' g)) = (\<Union>g. item_id ` set (items d g))"
    by (metis image_UN)
  from i o u s m show ?thesis by blast
qed

theorem cross_group_move_invariant_witness:
  "uniqueIds exampleDoc
   \<and> map item_id (items exampleDoc Staging) = [''a'', ''b'']
   \<and> map item_id (items exampleDoc Committed) = [''c0'', ''c1'', ''c2'', ''c3'']
   \<and> map item_id (items (handleDragEnd exampleDrop exampleDoc) Staging) = [''b'']
   \<and> map item_id (items (handleDragEnd exampleDrop exampleDoc) Committed)
       = [''c0'', ''c1'', ''a'', ''c2'', ''c3'']
   \<and> uniqueIds (handleDragEnd exampleDrop exampleDoc)
   \<and> mset (allItems (handleDragEnd exampleDrop exampleDoc)) = mset (allItems exampleDoc)"
proof -
  have u: "uniqueIds exampleDoc"
    by (simp add: uniqueIds_def allItems_def allGroups_def exampleDoc_def mkItem_def)
  have m: "drag_item (active_data exampleDrop)
             \<in> set (items exampleDoc (groupId (active_data exampleDrop)))"
    by (simp add: exampleDrop_def exampleDoc_def)
  have o: "over exampleDrop = Some \<lparr>over_id = ''c2'',
             over_data = Some \<lparr>drag_item = mkItem ''c2'' (Some ''ui'') (Some (JStr '''')) None,
                               groupId = Committed\<rparr>\<rparr>"
    by (simp add: exampleDrop_def)
  have g: "groupOfName ''c2'' = None"
    by (simp add: groupOfName_def allGroups_def)
  have r: "map item_id (items (handleDragEnd exampleDrop exampleDoc) Committed)
             = [''c0'', ''c1'', ''a'', ''c2'', ''c3'']
         \<and> map item_id (items (handleDragEnd exampleDrop exampleDoc) Staging) = [''b'']"
    by (simp add: handleDragEnd_def exampleDrop_def exampleDoc_def mkItem_def g Let_def
          splice_insert_def)
  show ?thesis
    using cross_group_move_invariant[OF u m o, of Committed
            "\<lparr>drag_item = mkItem ''c2'' (Some ''ui'') (Some (JStr '''')) None,
              groupId = Committed\<rparr>"] u r g
    by (simp add: exampleDrop_def exampleDoc_def mkItem_def)
qed







text \<open>
  Claim C5 (import failure atomicity), as the source has it. If the text is blank (nothing
  but white space) the dialog shows "Please paste JSON data to import"; if it is not blank and
  is not JSON, the dialog shows "Invalid JSON format. Please check your data."; in both cases
  the document is unchanged, and a blank text is never JSON. If the text is JSON for a value
  other than \<open>null\<close>, the dialog is cleared and closed and the document becomes the parsed
  value merged over the defaults, exactly as loading that text would give: its \<open>items\<close> is an
  object holding the properties of the parsed \<open>items\<close> over the seven empty default groups,
  and every other property is the parsed one if there is one and the default one otherwise.
\<close>

theorem handleImport_rejects_or_merges:
  "(list_all isTrimSpace (importText m) \<longrightarrow>
      JSON_parse (importText m) = None
      \<and> handleImport m data = (m\<lparr>error_msg := Some ''Please paste JSON data to import''\<rparr>, data))
   \<and> (\<not> list_all isTrimSpace (importText m) \<and> JSON_parse (importText m) = None \<longrightarrow>
      handleImport m data
        = (m\<lparr>error_msg := Some ''Invalid JSON format. Please check your data.''\<rparr>, data))
   \<and> (JSON_parse (importText m) = Some v \<and> v \<noteq> JNull \<longrightarrow>
      fst (handleImport m data) = m\<lparr>importText := [], error_msg := None, isOpen := False\<rparr>
      \<and> snd (handleImport m data) = loadFromStorage (Inr (Some (importText m)))
      \<and> (\<exists>its. ownProperty (snd (handleImport m data)) ''items'' = Some (JObj its)
            \<and> (\<forall>k. ownProperty (JObj its) k
                  = (case (case ownProperty v ''items'' of None \<Rightarrow> None
                           | Some iv \<Rightarrow> ownProperty iv k) of
                       Some x \<Rightarrow> Some x
                     | None \<Rightarrow> ownProperty (encodeItems (items DEFAULT_DATA)) k)))
      \<and> (\<forall>k. k \<noteq> ''items'' \<longrightarrow>
            ownProperty (snd (handleImport m data)) k
              = (case ownProperty v k of Some x \<Rightarrow> Some x
                 | None \<Rightarrow> ownProperty (encodeDoc DEFAULT_DATA) k)))"
proof -
  have a: "JSON_parse (importText m) = None
      \<and> handleImport m data = (m\<lparr>error_msg := Some ''Please paste JSON data to import''\<rparr>, data)"
    if "list_all isTrimSpace (importText m)"
    using that by (simp add: handleImport_def JSON_parse_blank)
  have b: "handleImport m data
        = (m\<lparr>error_msg := Some ''Invalid JSON format. Please check your data.''\<rparr>, data)"
    if "\<not> list_all isTrimSpace (importText m)" "JSON_parse (importText m) = None"
    using that by (simp add: handleImport_def)
  have c: "fst (handleImport m data) = m\<lparr>importText := [], error_msg := None, isOpen := False\<rparr>
      \<and> snd (handleImport m data) = loadFromStorage (Inr (Some (importText m)))
      \<and> (\<exists>its. ownProperty (snd (handleImport m data)) ''items'' = Some (JObj its)
            \<and> (\<forall>k. ownProperty (JObj its) k
                  = (case (case ownProperty v ''items'' of None \<Rightarrow> None
                           | Some iv \<Rightarrow> ownProperty iv k) of
                       Some x \<Rightarrow> Some x
                     | None \<Rightarrow> ownProperty (encodeItems (items DEFAULT_DATA)) k)))
      \<and> (\<forall>k. k \<noteq> ''items'' \<longrightarrow>
            ownProperty (snd (handleImport m data)) k
              = (case ownProperty v k of Some x \<Rightarrow> Some x
                 | None \<Rightarrow> ownProperty (encodeDoc DEFAULT_DATA) k))"
    if p: "JSON_parse (importText m) = Some v" and n: "v \<noteq> JNull"
  proof -
    obtain top its where t: "mergeWithDefaults v = Inr (JObj top)"
      and i: "ownProperty (JObj top) ''items'' = Some (JObj its)"
      and o: "\<forall>k. k \<noteq> ''items'' \<longrightarrow>
           ownProperty (JObj top) k
             = (case ownProperty v k of Some x \<Rightarrow> Some x
                | None \<Rightarrow> ownProperty (encodeDoc DEFAULT_DATA) k)"
      and g: "\<forall>k. ownProperty (JObj its) k
             = (case (case ownProperty v ''items'' of None \<Rightarrow> None
                      | Some iv \<Rightarrow> ownProperty iv k) of
                  Some x \<Rightarrow> Some x
                | None \<Rightarrow> ownProperty (encodeItems (items DEFAULT_DATA)) k)"
      using mergeWithDefaults_properties[OF n] by blast
    have nb: "\<not> list_all isTrimSpace (importText m)"
      using p JSON_parse_blank by fastforce
    have ne: "importText m \<noteq> []" using nb by auto
    have h: "handleImport m data
               = (m\<lparr>importText := [], error_msg := None, isOpen := False\<rparr>, JObj top)"
      using p t nb by (simp add: handleImport_def handleImportData_def)
    have l: "loadFromStorage (Inr (Some (importText m))) = JObj top"
      using p t ne by (simp add: loadFromStorage_def)
    show ?thesis using h l i o g by auto
  qed
  from a b c show ?thesis by blast
qed

theorem handleImport_rejects_or_merges_witness:
  "handleImport \<lparr>importText = ''{not json'', error_msg = None, isOpen = True\<rparr> (encodeDoc exampleDoc)
     = (\<lparr>importText = ''{not json'',
         error_msg = Some ''Invalid JSON format. Please check your data.'', isOpen = True\<rparr>,
        encodeDoc exampleDoc)
   \<and> handleImport \<lparr>importText = '' '', error_msg = None, isOpen = True\<rparr> (encodeDoc exampleDoc)
     = (\<lparr>importText = '' '', error_msg = Some ''Please paste JSON data to import'', isOpen = True\<rparr>,
        encodeDoc exampleDoc)
   \<and> fst (handleImport \<lparr>importText = ''[7]'', error_msg = None, isOpen = True\<rparr>
              (encodeDoc exampleDoc))
     = \<lparr>importText = [], error_msg = None, isOpen = False\<rparr>
   \<and> ownProperty (snd (handleImport \<lparr>importText = ''[7]'', error_msg = None, isOpen = True\<rparr>
                           (encodeDoc exampleDoc))) ''velocity''
     = Some (JNum 34)
   \<and> ownProperty (snd (handleImport \<lparr>importText = ''[7]'', error_msg = None, isOpen = True\<rparr>
                           (encodeDoc exampleDoc))) ''0''
     = Some (JNum 7)"
proof -
  let ?d = "encodeDoc exampleDoc"
  let ?m1 = "\<lparr>importText = ''{not json'', error_msg = None, isOpen = True\<rparr>"
  let ?m2 = "\<lparr>importText = '' '', error_msg = None, isOpen = True\<rparr>"
  let ?m3 = "\<lparr>importText = ''[7]'', error_msg = None, isOpen = True\<rparr>"
  have p1: "JSON_parse ''{not json'' = None" by code_simp
  have p3: "JSON_parse ''[7]'' = Some (JArr [JNum 7])" by code_simp
  have b1: "\<not> list_all isTrimSpace ''{not json''" by (simp add: isTrimSpace_def)
  have b2: "list_all isTrimSpace '' ''" by (simp add: isTrimSpace_def)
  have o1: "ownProperty (JArr [JNum 7]) ''velocity'' = None" by code_simp
  have o2: "ownProperty (JArr [JNum 7]) ''0'' = Some (JNum 7)" by code_simp
  have o3: "ownProperty (encodeDoc DEFAULT_DATA) ''velocity'' = Some (JNum 34)"
    by (rule defaults_have_all_keys)
  have r1: "handleImport ?m1 ?d
      = (?m1\<lparr>error_msg := Some ''Invalid JSON format. Please check your data.''\<rparr>, ?d)"
    using handleImport_rejects_or_merges[of ?m1 ?d JNull] p1 b1 by simp
  have r2: "handleImport ?m2 ?d = (?m2\<lparr>error_msg := Some ''Please paste JSON data to import''\<rparr>, ?d)"
    using handleImport_rejects_or_merges[of ?m2 ?d JNull] b2 by simp
  have c3: "JSON_parse (importText ?m3) = Some (JArr [JNum 7]) \<and> JArr [JNum 7] \<noteq> JNull"
    using p3 by simp
  note t3 = handleImport_rejects_or_merges[of ?m3 ?d "JArr [JNum 7]",
              THEN conjunct2, THEN conjunct2, rule_format, OF c3]
  have r3: "fst (handleImport ?m3 ?d) = ?m3\<lparr>importText := [], error_msg := None, isOpen := False\<rparr>"
    by (rule t3[THEN conjunct1])
  note r4 = t3[THEN conjunct2, THEN conjunct2, THEN conjunct2]
  have r5: "ownProperty (snd (handleImport ?m3 ?d)) ''velocity'' = Some (JNum 34)"
    using r4[rule_format, of "''velocity''"] o1 o3 by simp
  have r6: "ownProperty (snd (handleImport ?m3 ?d)) ''0'' = Some (JNum 7)"
    using r4[rule_format, of "''0''"] o2 by simp
  from r1 r2 r3 r5 r6 show ?thesis by simp
qed

text \<open>
  Claim C5 as it is written has one message for every text that is not JSON, and a merge for
  every text that is. The empty text is not JSON and gets the other message; the text
  \<open>null\<close> is JSON, the dialog closes without an error, and the document (here the example
  board, which is not the default document) stays as it was.
\<close>

theorem handleImport_empty_text_and_null:
  "JSON_parse '''' = None
   \<and> handleImport \<lparr>importText = '''', error_msg = None, isOpen = True\<rparr> (encodeDoc exampleDoc)
     = (\<lparr>importText = '''', error_msg = Some ''Please paste JSON data to import'', isOpen = True\<rparr>,
        encodeDoc exampleDoc)
   \<and> JSON_parse ''null'' = Some JNull
   \<and> mergeWithDefaults JNull = Inl TypeError
   \<and> handleImport \<lparr>importText = ''null'', error_msg = None, isOpen = True\<rparr> (encodeDoc exampleDoc)
     = (\<lparr>importText = '''', error_msg = None, isOpen = False\<rparr>, encodeDoc exampleDoc)
   \<and> ownProperty (encodeDoc exampleDoc) ''velocity'' = Some (JNum 100)
   \<and> ownProperty (encodeDoc DEFAULT_DATA) ''velocity'' = Some (JNum 34)"
proof -
  have p0: "JSON_parse '''' = None" by code_simp
  have p1: "JSON_parse ''null'' = Some JNull" by code_simp
  have b: "\<not> list_all isTrimSpace ''null''" by (simp add: isTrimSpace_def)
  have v: "ownProperty (encodeDoc exampleDoc) ''velocity'' = Some (JNum 100)"
    by (simp add: ownProperty_def spread_def encodeDoc_def exampleDoc_def)
  show ?thesis
    using p0 p1 b v defaults_have_all_keys(2)
    by (simp add: handleImport_def handleImportData_def mergeWithDefaults_null)
qed

text \<open>
  Claim C8 (load defaults), as the source has it. When reading the store fails, or the stored
  value is absent or is not JSON (or is the JSON text \<open>null\<close>), \<open>loadFromStorage\<close> returns the
  default document: the five starter sprints with multipliers 100, 95, 90, 80 and 70, a
  velocity of 34, and seven empty groups. For a stored JSON value other than \<open>null\<close> the
  result is that value merged over the defaults: its \<open>items\<close> is an object that has every
  group key (the parsed group if there is one, an empty group otherwise), and \<open>sprints\<close> and
  \<open>velocity\<close> are the parsed ones if there are any and the default ones otherwise.
\<close>

theorem loadFromStorage_defaults_and_merge:
  "loadFromStorage (Inl e) = encodeDoc DEFAULT_DATA
   \<and> loadFromStorage (Inr None) = encodeDoc DEFAULT_DATA
   \<and> (JSON_parse s = None \<or> JSON_parse s = Some JNull
        \<longrightarrow> loadFromStorage (Inr (Some s)) = encodeDoc DEFAULT_DATA)
   \<and> map multiplier (sprints DEFAULT_DATA) = [100, 95, 90, 80, 70]
   \<and> map sprint_name (sprints DEFAULT_DATA) = [''S1'', ''S2'', ''S3'', ''S4'', ''S5'']
   \<and> velocity DEFAULT_DATA = 34
   \<and> items DEFAULT_DATA g = []
   \<and> (JSON_parse s = Some v \<and> v \<noteq> JNull \<longrightarrow>
        (\<exists>its. ownProperty (loadFromStorage (Inr (Some s))) ''items'' = Some (JObj its)
            \<and> (\<forall>g. ownProperty (JObj its) (groupName g)
                  = Some (case (case ownProperty v ''items'' of None \<Rightarrow> None
                                | Some iv \<Rightarrow> ownProperty iv (groupName g)) of
                            Some x \<Rightarrow> x | None \<Rightarrow> JArr [])))
        \<and> ownProperty (loadFromStorage (Inr (Some s))) ''sprints''
            = Some (case ownProperty v ''sprints'' of Some x \<Rightarrow> x
                    | None \<Rightarrow> JArr (map encodeSprint (sprints DEFAULT_DATA)))
        \<and> ownProperty (loadFromStorage (Inr (Some s))) ''velocity''
            = Some (case ownProperty v ''velocity'' of Some x \<Rightarrow> x | None \<Rightarrow> JNum 34))"
proof -
  have d: "loadFromStorage (Inr (Some s)) = encodeDoc DEFAULT_DATA"
    if "JSON_parse s = None \<or> JSON_parse s = Some JNull"
    using that by (auto simp: loadFromStorage_def mergeWithDefaults_null)
  have c: "(\<exists>its. ownProperty (loadFromStorage (Inr (Some s))) ''items'' = Some (JObj its)
            \<and> (\<forall>g. ownProperty (JObj its) (groupName g)
                  = Some (case (case ownProperty v ''items'' of None \<Rightarrow> None
                                | Some iv \<Rightarrow> ownProperty iv (groupName g)) of
                            Some x \<Rightarrow> x | None \<Rightarrow> JArr [])))
        \<and> ownProperty (loadFromStorage (Inr (Some s))) ''sprints''
            = Some (case ownProperty v ''sprints'' of Some x \<Rightarrow> x
                    | None \<Rightarrow> JArr (map encodeSprint (sprints DEFAULT_DATA)))
        \<and> ownProperty (loadFromStorage (Inr (Some s))) ''velocity''
            = Some (case ownProperty v ''velocity'' of Some x \<Rightarrow> x | None \<Rightarrow> JNum 34)"
    if p: "JSON_parse s = Some v" and n: "v \<noteq> JNull"
  proof -
    obtain top its where t: "mergeWithDefaults v = Inr (JObj top)"
      and i: "ownProperty (JObj top) ''items'' = Some (JObj its)"
      and o: "\<forall>k. k \<noteq> ''items'' \<longrightarrow>
           ownProperty (JObj top) k
             = (case ownProperty v k of Some x \<Rightarrow> Some x
                | None \<Rightarrow> ownProperty (encodeDoc DEFAULT_DATA) k)"
      and g: "\<forall>k. ownProperty (JObj its) k
             = (case (case ownProperty v ''items'' of None \<Rightarrow> None
                      | Some iv \<Rightarrow> ownProperty iv k) of
                  Some x \<Rightarrow> Some x
                | None \<Rightarrow> ownProperty (encodeItems (items DEFAULT_DATA)) k)"
      using mergeWithDefaults_properties[OF n] by blast
    have ne: "s \<noteq> []" using p JSON_parse_blank[of s] by auto
    have l: "loadFromStorage (Inr (Some s)) = JObj top"
      using p t ne by (simp add: loadFromStorage_def)
    have g': "ownProperty (JObj its) (groupName g)
                  = Some (case (case ownProperty v ''items'' of None \<Rightarrow> None
                                | Some iv \<Rightarrow> ownProperty iv (groupName g)) of
                            Some x \<Rightarrow> x | None \<Rightarrow> JArr [])" for g
      using g by (simp add: defaults_have_all_keys(3) split: option.splits)
    have s': "ownProperty (JObj top) ''sprints''
            = Some (case ownProperty v ''sprints'' of Some x \<Rightarrow> x
                    | None \<Rightarrow> JArr (map encodeSprint (sprints DEFAULT_DATA)))"
      using o by (simp add: defaults_have_all_keys(1) split: option.splits)
    have v': "ownProperty (JObj top) ''velocity''
            = Some (case ownProperty v ''velocity'' of Some x \<Rightarrow> x | None \<Rightarrow> JNum 34)"
      using o by (simp add: defaults_have_all_keys(2) split: option.splits)
    show ?thesis using l i g' s' v' by auto
  qed
  have e: "map multiplier (sprints DEFAULT_DATA) = [100, 95, 90, 80, 70]
   \<and> map sprint_name (sprints DEFAULT_DATA) = [''S1'', ''S2'', ''S3'', ''S4'', ''S5'']
   \<and> velocity DEFAULT_DATA = 34 \<and> items DEFAULT_DATA g = []"
    by (simp add: DEFAULT_DATA_def)
  have f: "loadFromStorage (Inl e) = encodeDoc DEFAULT_DATA
         \<and> loadFromStorage (Inr None) = encodeDoc DEFAULT_DATA"
    by (simp add: loadFromStorage_def)
  from d c e f show ?thesis by blast
qed

theorem loadFromStorage_defaults_and_merge_witness:
  "loadFromStorage (Inr (Some ''{not json'')) = encodeDoc DEFAULT_DATA
   \<and> loadFromStorage (Inr (Some ''null'')) = encodeDoc DEFAULT_DATA
   \<and> JSON_parse partialStored = Some partialValue
   \<and> ownProperty (loadFromStorage (Inr (Some partialStored))) ''velocity'' = Some (JNum 7)
   \<and> ownProperty (loadFromStorage (Inr (Some partialStored))) ''sprints''
       = Some (JArr (map encodeSprint (sprints DEFAULT_DATA)))
   \<and> (\<exists>its. ownProperty (loadFromStorage (Inr (Some partialStored))) ''items'' = Some (JObj its)
         \<and> ownProperty (JObj its) ''risks'' = Some (JArr [JStr ''r''])
         \<and> ownProperty (JObj its) ''staging'' = Some (JArr []))"
proof -
  have p1: "JSON_parse ''{not json'' = None" by code_simp
  have p2: "JSON_parse ''null'' = Some JNull" by code_simp
  have p3: "JSON_parse partialStored = Some partialValue" by code_simp
  have o1: "ownProperty partialValue ''velocity'' = Some (JNum 7)" by code_simp
  have o2: "ownProperty partialValue ''sprints'' = None" by code_simp
  have o3: "ownProperty partialValue ''items'' = Some (JObj [(''risks'', JArr [JStr ''r''])])"
    by code_simp
  have o4: "ownProperty (JObj [(''risks'', JArr [JStr ''r''])]) (groupName Risks)
              = Some (JArr [JStr ''r''])" by code_simp
  have o5: "ownProperty (JObj [(''risks'', JArr [JStr ''r''])]) (groupName Staging) = None"
    by code_simp
  have r1: "loadFromStorage (Inr (Some ''{not json'')) = encodeDoc DEFAULT_DATA"
    using loadFromStorage_defaults_and_merge[of StorageError "''{not json''" Staging JNull] p1
    by simp
  have r2: "loadFromStorage (Inr (Some ''null'')) = encodeDoc DEFAULT_DATA"
    using loadFromStorage_defaults_and_merge[of StorageError "''null''" Staging JNull] p2
    by simp
  have c3: "JSON_parse partialStored = Some partialValue \<and> partialValue \<noteq> JNull"
    using p3 by (simp add: partialValue_def)
  note t = loadFromStorage_defaults_and_merge[of StorageError partialStored Staging partialValue,
             THEN conjunct2, THEN conjunct2, THEN conjunct2, THEN conjunct2, THEN conjunct2,
             THEN conjunct2, THEN conjunct2, rule_format, OF c3]
  obtain its where i: "ownProperty (loadFromStorage (Inr (Some partialStored))) ''items''
                         = Some (JObj its)"
    and g: "\<forall>g. ownProperty (JObj its) (groupName g)
                  = Some (case (case ownProperty partialValue ''items'' of None \<Rightarrow> None
                                | Some iv \<Rightarrow> ownProperty iv (groupName g)) of
                            Some x \<Rightarrow> x | None \<Rightarrow> JArr [])"
    using t[THEN conjunct1] by blast
  have g1: "ownProperty (JObj its) ''risks'' = Some (JArr [JStr ''r''])"
    using g[rule_format, of Risks] o3 o4 by simp
  have g2: "ownProperty (JObj its) ''staging'' = Some (JArr [])"
    using g[rule_format, of Staging] o3 o5 by simp
  have s: "ownProperty (loadFromStorage (Inr (Some partialStored))) ''sprints''
       = Some (JArr (map encodeSprint (sprints DEFAULT_DATA)))"
    using t[THEN conjunct2, THEN conjunct1] o2 by simp
  have v: "ownProperty (loadFromStorage (Inr (Some partialStored))) ''velocity'' = Some (JNum 7)"
    using t[THEN conjunct2, THEN conjunct2] o1 by simp
  from r1 r2 p3 v s i g1 g2 show ?thesis by blast
qed

text \<open>
  Claim C8 as it is written says that the default document has a zeroed velocity baseline.
  The velocity of \<open>DEFAULT_DATA\<close>, which is what is returned when nothing is stored, is 34.
\<close>

theorem default_velocity_is_34:
  "loadFromStorage (Inr None) = encodeDoc DEFAULT_DATA
   \<and> ownProperty (loadFromStorage (Inr None)) ''velocity'' = Some (JNum 34)
   \<and> velocity DEFAULT_DATA = 34
   \<and> velocity DEFAULT_DATA \<noteq> 0"
  using defaults_have_all_keys(2) by (simp add: loadFromStorage_def DEFAULT_DATA_def)

subsection \<open>C1: exporting a document and importing the text gives the document back\<close>

text \<open>
  Claim C1. For every valid document \<open>d\<close>, importing the string produced by exporting \<open>d\<close>
  yields a document equal to \<open>d\<close>: \<open>JSON.parse\<close> reads the exported text back as the value
  that was printed, \<open>handleImportData\<close> (the merge over \<open>DEFAULT_DATA\<close>) returns exactly that
  value whatever the current document is, the dialog's \<open>handleImport\<close> accepts the text, clears
  its field, shows no error and closes, and reading the imported value back gives \<open>d\<close> itself:
  ids, texts and numbers are the same, and an optional field that is absent in \<open>d\<close> is absent in
  the result (it is not turned into zero). Valid documents are those of \<open>validDocument\<close>: the
  numbers are integers and each point field is absent, an integer or a string.
\<close>

theorem import_export_round_trip:
  assumes "validDocument d"
  shows "JSON_parse (exportDocument d) = Some (encodeDoc d)
       \<and> handleImportData (exportDocument d) cur = encodeDoc d
       \<and> handleImport \<lparr>importText = exportDocument d, error_msg = e, isOpen = True\<rparr> cur
           = (\<lparr>importText = [], error_msg = None, isOpen = False\<rparr>, encodeDoc d)
       \<and> decodeDoc (handleImportData (exportDocument d) cur) = d"
proof -
  have c: "canonical (encodeDoc d)" using assms by (rule canonical_encodeDoc)
  have p: "JSON_parse (exportDocument d) = Some (encodeDoc d)"
    unfolding exportDocument_def using c by (rule JSON_parse_stringify)
  have h: "handleImportData (exportDocument d) cur = encodeDoc d"
    by (simp add: handleImportData_def p mergeWithDefaults_encodeDoc)
  have nb: "\<not> list_all isTrimSpace (exportDocument d)"
    using JSON_parse_blank[of "exportDocument d"] p by auto
  have i: "handleImport \<lparr>importText = exportDocument d, error_msg = e, isOpen = True\<rparr> cur
           = (\<lparr>importText = [], error_msg = None, isOpen = False\<rparr>, encodeDoc d)"
    by (simp add: handleImport_def nb p h)
  have r: "decodeDoc (handleImportData (exportDocument d) cur) = d"
    by (simp add: h decodeDoc_encodeDoc)
  show ?thesis using p h i r by blast
qed

text \<open>
  On \<open>smallDoc\<close>, whose item has no epic, a text with a quote, a backslash and a line break,
  8 required points and the empty string as optional points, imported over the default
  document.
\<close>

theorem import_export_round_trip_witness:
  "validDocument smallDoc
   \<and> handleImportData (exportDocument smallDoc) (encodeDoc DEFAULT_DATA) = encodeDoc smallDoc
   \<and> decodeDoc (handleImportData (exportDocument smallDoc) (encodeDoc DEFAULT_DATA)) = smallDoc
   \<and> epic (hd (items (decodeDoc (handleImportData (exportDocument smallDoc)
                                    (encodeDoc DEFAULT_DATA))) Committed)) = None"
proof -
  have v: "validDocument smallDoc" by code_simp
  note t = import_export_round_trip[OF v, of "encodeDoc DEFAULT_DATA" None]
  have h: "handleImportData (exportDocument smallDoc) (encodeDoc DEFAULT_DATA) = encodeDoc smallDoc"
    using t by blast
  have r: "decodeDoc (handleImportData (exportDocument smallDoc) (encodeDoc DEFAULT_DATA)) = smallDoc"
    using t by blast
  have e: "epic (hd (items smallDoc Committed)) = None" by (simp add: smallDoc_def)
  show ?thesis using v h r e by simp
qed

end
